theory Spec2Isabelle
  imports Main "HOL-Library.AList" "HOL-Library.Sublist"
begin

section \<open>Package mtx: values, maps and slices behind a read-write mutex\<close>

text \<open>
  The development embeds \<^verbatim>\<open>internal/mtx/mtx.go\<close>. The calls of a goroutine are
  computations over a world that holds the one guard under study, the objects its
  references point to, and the variables a running closure has captured. First one
  goroutine runs alone; the subsection on goroutines lets several take steps in turn.
  \<open>Len\<close> and \<open>Clear\<close> are those of \<^verbatim>\<open>RWMtxSlice\<close>; those of \<^verbatim>\<open>RWMtxMap\<close> are
  \<open>Len_map\<close> and \<open>Clear_map\<close>.
\<close>

subsection \<open>Outcomes of a Go call\<close>

text \<open>
  A call returns a value, or panics (the stack unwinds and deferred calls run), or never
  comes back to its caller: it waits for a lock for ever, or the runtime stops the
  process with a fatal error.
\<close>

datatype panic =
    IndexOutOfRange | SliceBoundsOutOfRange | NilMapAssignment | UnhashableKey | Custom string

datatype halt = Deadlock | FatalError

datatype 'a res = Ret 'a | Panic panic

type_synonym ('a, 's) go = "'s \<Rightarrow> halt + ('a res \<times> 's)"

definition ret :: "'a \<Rightarrow> ('a, 's) go" where
  "ret x s = Inr (Ret x, s)"

definition raise :: "panic \<Rightarrow> ('a, 's) go" where
  "raise p s = Inr (Panic p, s)"

text \<open>Sequencing: the second statement runs only when the first one returned.\<close>

definition bnd :: "('a, 's) go \<Rightarrow> ('a \<Rightarrow> ('b, 's) go) \<Rightarrow> ('b, 's) go" where
  "bnd m f s =
     (case m s of
        Inl h \<Rightarrow> Inl h
      | Inr (Panic p, s') \<Rightarrow> Inr (Panic p, s')
      | Inr (Ret x, s') \<Rightarrow> f x s')"

text \<open>
  \<^verbatim>\<open>defer d(); body\<close>: the deferred call runs when the body returns and when it panics.
  A panic of the deferred call replaces the outcome of the body.
\<close>

definition deferred :: "(unit, 's) go \<Rightarrow> ('a, 's) go \<Rightarrow> ('a, 's) go" where
  "deferred d body s =
     (case body s of
        Inl h \<Rightarrow> Inl h
      | Inr (r, s') \<Rightarrow>
          (case d s' of
             Inl h \<Rightarrow> Inl h
           | Inr (Panic p, s'') \<Rightarrow> Inr (Panic p, s'')
           | Inr (Ret u, s'') \<Rightarrow> Inr (r, s'')))"

subsection \<open>The world\<close>

text \<open>
  Modelled from the spec: \<^verbatim>\<open>sync.RWMutex\<close> belongs to Go's standard library and is not
  part of the repository. The spec asks for a reader/writer lock that admits one writer or
  any number of readers, never both. For a single goroutine the lock is a count of read
  holds and a write flag; an acquisition that cannot be granted waits for ever, and
  releasing a lock that is not held is a fatal error of the runtime.
\<close>

record rwmutex =
  readers :: nat
  writer :: bool

text \<open>
  \<^verbatim>\<open>type RWMtx[T any] struct { sync.RWMutex; v T }\<close>: the fields \<open>RWMutex\<close> and \<open>v\<close>
  are the guard. \<open>heap\<close> holds the objects that references inside \<open>v\<close> (a map, the
  backing array of a slice) point to; \<open>vars\<close> holds the variables that the closure
  being run has captured from its caller.
\<close>

record ('t, 'l, 'h) world =
  RWMutex :: rwmutex
  v :: 't
  vars :: 'l
  heap :: 'h

text \<open>The lock is free: nobody holds it for reading or for writing.\<close>

definition unlocked :: "('t, 'l, 'h) world \<Rightarrow> bool" where
  "unlocked s \<longleftrightarrow> readers (RWMutex s) = 0 \<and> \<not> writer (RWMutex s)"

text \<open>
  Modelled from the spec: the four operations of \<^verbatim>\<open>sync.RWMutex\<close> the package
  calls, as one goroutine sees them. \<^verbatim>\<open>RLock\<close> waits while a writer holds the
  lock; \<^verbatim>\<open>Lock\<close> waits while anybody holds it; \<^verbatim>\<open>RUnlock\<close> and \<^verbatim>\<open>Unlock\<close>
  of a lock that is not held that way stop the process.
\<close>

definition RLock :: "(unit, ('t, 'l, 'h) world) go" where
  "RLock s =
     (if writer (RWMutex s) then Inl Deadlock
      else Inr (Ret (), s\<lparr>RWMutex := (RWMutex s)\<lparr>readers := Suc (readers (RWMutex s))\<rparr>\<rparr>))"

definition RUnlock :: "(unit, ('t, 'l, 'h) world) go" where
  "RUnlock s =
     (if readers (RWMutex s) = 0 then Inl FatalError
      else Inr (Ret (), s\<lparr>RWMutex := (RWMutex s)\<lparr>readers := readers (RWMutex s) - 1\<rparr>\<rparr>))"

definition Lock :: "(unit, ('t, 'l, 'h) world) go" where
  "Lock s =
     (if writer (RWMutex s) \<or> 0 < readers (RWMutex s) then Inl Deadlock
      else Inr (Ret (), s\<lparr>RWMutex := (RWMutex s)\<lparr>writer := True\<rparr>\<rparr>))"

definition Unlock :: "(unit, ('t, 'l, 'h) world) go" where
  "Unlock s =
     (if \<not> writer (RWMutex s) then Inl FatalError
      else Inr (Ret (), s\<lparr>RWMutex := (RWMutex s)\<lparr>writer := False\<rparr>\<rparr>))"

subsection \<open>RWMtx\<close>

text \<open>
  A pointer is what can be read and written through it. \<open>addr_v\<close> is \<^verbatim>\<open>&m.v\<close>.
\<close>

record ('a, 's) ptr =
  deref :: "'s \<Rightarrow> 'a"
  assign :: "'a \<Rightarrow> 's \<Rightarrow> 's"

definition addr_v :: "('t, ('t, 'l, 'h) world) ptr" where
  "addr_v = \<lparr>deref = v, assign = (\<lambda>x s. s\<lparr>v := x\<rparr>)\<rparr>"

definition store :: "('a, 's) ptr \<Rightarrow> 'a \<Rightarrow> (unit, 's) go" where
  "store p x s = Inr (Ret (), assign p x s)"

text \<open>\<^verbatim>\<open>func NewRWMtx[T any](v T) RWMtx[T] { return RWMtx[T]{v: v} }\<close>\<close>

definition NewRWMtx :: "'t \<Rightarrow> 'l \<Rightarrow> 'h \<Rightarrow> ('t, 'l, 'h) world" where
  "NewRWMtx x l h = \<lparr>RWMutex = \<lparr>readers = 0, writer = False\<rparr>, v = x, vars = l, heap = h\<rparr>"

text \<open>\<^verbatim>\<open>m.RLock(); defer m.RUnlock(); return m.v\<close>\<close>

definition Get :: "('t, ('t, 'l, 'h) world) go" where
  "Get = bnd RLock (\<lambda>_. deferred RUnlock (\<lambda>s. ret (v s) s))"

text \<open>\<^verbatim>\<open>m.Lock(); defer m.Unlock(); m.v = v\<close>\<close>

definition Set :: "'t \<Rightarrow> (unit, ('t, 'l, 'h) world) go" where
  "Set x = bnd Lock (\<lambda>_. deferred Unlock (store addr_v x))"

text \<open>
  A Go \<^verbatim>\<open>error\<close> is \<open>None\<close> for \<^verbatim>\<open>nil\<close> and \<open>Some e\<close> otherwise.
  \<^verbatim>\<open>m.RLock(); defer m.RUnlock(); return clb(m.v)\<close>
\<close>

definition RWithE :: "('t \<Rightarrow> ('e option, ('t, 'l, 'h) world) go) \<Rightarrow> ('e option, ('t, 'l, 'h) world) go" where
  "RWithE clb = bnd RLock (\<lambda>_. deferred RUnlock (\<lambda>s. clb (v s) s))"

text \<open>\<^verbatim>\<open>_ = m.RWithE(func(tx T) error { clb(tx); return nil })\<close>\<close>

definition RWith :: "('t \<Rightarrow> (unit, ('t, 'l, 'h) world) go) \<Rightarrow> (unit, ('t, 'l, 'h) world) go" where
  "RWith clb =
     bnd (RWithE (\<lambda>tx. bnd (clb tx) (\<lambda>_. ret (None :: unit option)))) (\<lambda>_. ret ())"

text \<open>\<^verbatim>\<open>m.Lock(); defer m.Unlock(); return clb(&m.v)\<close>\<close>

definition WithE ::
  "(('t, ('t, 'l, 'h) world) ptr \<Rightarrow> ('e option, ('t, 'l, 'h) world) go) \<Rightarrow> ('e option, ('t, 'l, 'h) world) go" where
  "WithE clb = bnd Lock (\<lambda>_. deferred Unlock (clb addr_v))"

text \<open>\<^verbatim>\<open>_ = m.WithE(func(tx *T) error { clb(tx); return nil })\<close>\<close>

definition With ::
  "(('t, ('t, 'l, 'h) world) ptr \<Rightarrow> (unit, ('t, 'l, 'h) world) go) \<Rightarrow> (unit, ('t, 'l, 'h) world) go" where
  "With clb =
     bnd (WithE (\<lambda>tx. bnd (clb tx) (\<lambda>_. ret (None :: unit option)))) (\<lambda>_. ret ())"

subsection \<open>Named results and captured variables\<close>

text \<open>
  \<^verbatim>\<open>func (...) (out V, ok bool) { ...; return }\<close>: the named results start at their zero
  values, the closures of the body assign them, and the bare \<^verbatim>\<open>return\<close> yields what
  they hold. While the body runs they are the first component of \<open>vars\<close>.
\<close>

definition named_results ::
  "'r \<Rightarrow> (unit, ('t, 'r \<times> 'l, 'h) world) go \<Rightarrow> ('r, ('t, 'l, 'h) world) go" where
  "named_results zero body s =
     (case body \<lparr>RWMutex = RWMutex s, v = v s, vars = (zero, vars s), heap = heap s\<rparr> of
        Inl h \<Rightarrow> Inl h
      | Inr (r, s') \<Rightarrow>
          Inr ((case r of Ret u \<Rightarrow> Ret (fst (vars s')) | Panic p \<Rightarrow> Panic p),
               \<lparr>RWMutex = RWMutex s', v = v s', vars = snd (vars s'), heap = heap s'\<rparr>))"

definition set_results :: "'r \<Rightarrow> (unit, ('t, 'r \<times> 'l, 'h) world) go" where
  "set_results r s = ret () (s\<lparr>vars := (r, snd (vars s))\<rparr>)"

subsection \<open>RWMtxMap\<close>

text \<open>
  A Go map value is \<^verbatim>\<open>nil\<close> or a reference to a table; the tables live in the heap, and
  the address of a table is its position there. A table is the list of its entries.
  \<open>z\<close> is the zero value of \<open>V\<close>.

  What a map does with a key depends on the key type \<open>K\<close>, which the package leaves to
  its caller (\<^verbatim>\<open>K comparable\<close>), so it is a parameter here. A key may be unhashable:
  an interface type satisfies \<^verbatim>\<open>comparable\<close> (the package uses the builtin
  \<^verbatim>\<open>clear\<close>, so its Go is 1.21 or later), and a key of such a type that holds a slice,
  a map or a function makes every map operation panic. A key may differ from itself:
  a floating-point NaN does, so no lookup ever finds an entry stored under it and every
  assignment under it adds an entry. Keys that equal themselves are taken up to
  Go's \<^verbatim>\<open>==\<close>.
\<close>

record 'k keytype =
  hashable :: "'k \<Rightarrow> bool"
  self_equal :: "'k \<Rightarrow> bool"

type_synonym mapref = "nat option"

text \<open>The entry a lookup of \<open>k\<close> finds, the table after \<^verbatim>\<open>t[k] = x\<close>, and after \<^verbatim>\<open>delete(t, k)\<close>.\<close>

definition find_entry :: "'k keytype \<Rightarrow> ('k \<times> 'v) list \<Rightarrow> 'k \<Rightarrow> 'v option" where
  "find_entry ks tbl k = (if self_equal ks k then map_of tbl k else None)"

definition put_entry :: "'k keytype \<Rightarrow> 'k \<Rightarrow> 'v \<Rightarrow> ('k \<times> 'v) list \<Rightarrow> ('k \<times> 'v) list" where
  "put_entry ks k x tbl = (if self_equal ks k then AList.update k x tbl else tbl @ [(k, x)])"

definition drop_entry :: "'k keytype \<Rightarrow> 'k \<Rightarrow> ('k \<times> 'v) list \<Rightarrow> ('k \<times> 'v) list" where
  "drop_entry ks k tbl = (if self_equal ks k then AList.delete k tbl else tbl)"

text \<open>
  \<^verbatim>\<open>x, ok = m[k]\<close> on a hashable key: a \<^verbatim>\<open>nil\<close> map holds nothing. And the heap after
  \<^verbatim>\<open>delete(m, k)\<close> on a hashable key: deleting from a \<^verbatim>\<open>nil\<close> map does nothing.
\<close>

definition map_lookup ::
  "'k keytype \<Rightarrow> 'v \<Rightarrow> ('k \<times> 'v) list list \<Rightarrow> mapref \<Rightarrow> 'k \<Rightarrow> 'v \<times> bool" where
  "map_lookup ks z h m k =
     (case m of
        None \<Rightarrow> (z, False)
      | Some a \<Rightarrow> (case find_entry ks (h ! a) k of None \<Rightarrow> (z, False) | Some x \<Rightarrow> (x, True)))"

definition map_erase ::
  "'k keytype \<Rightarrow> ('k \<times> 'v) list list \<Rightarrow> mapref \<Rightarrow> 'k \<Rightarrow> ('k \<times> 'v) list list" where
  "map_erase ks h m k = (case m of None \<Rightarrow> h | Some a \<Rightarrow> h[a := drop_entry ks k (h ! a)])"

text \<open>
  The three map statements the package uses. Reading and deleting hash the key first,
  also on a \<^verbatim>\<open>nil\<close> map, and panic when it cannot be hashed. Assigning checks for
  the \<^verbatim>\<open>nil\<close> map first, and panics on it.
\<close>

definition map_index ::
  "'k keytype \<Rightarrow> 'v \<Rightarrow> mapref \<Rightarrow> 'k \<Rightarrow> ('v \<times> bool, ('t, 'l, ('k \<times> 'v) list list) world) go" where
  "map_index ks z m k s =
     (if hashable ks k then ret (map_lookup ks z (heap s) m k) s else raise UnhashableKey s)"

definition map_assign ::
  "'k keytype \<Rightarrow> mapref \<Rightarrow> 'k \<Rightarrow> 'v \<Rightarrow> (unit, ('t, 'l, ('k \<times> 'v) list list) world) go" where
  "map_assign ks m k x s =
     (case m of
        None \<Rightarrow> raise NilMapAssignment s
      | Some a \<Rightarrow>
          if hashable ks k then ret () (s\<lparr>heap := (heap s)[a := put_entry ks k x (heap s ! a)]\<rparr>)
          else raise UnhashableKey s)"

definition map_delete ::
  "'k keytype \<Rightarrow> mapref \<Rightarrow> 'k \<Rightarrow> (unit, ('t, 'l, ('k \<times> 'v) list list) world) go" where
  "map_delete ks m k s =
     (if hashable ks k then ret () (s\<lparr>heap := map_erase ks (heap s) m k\<rparr>)
      else raise UnhashableKey s)"

text \<open>\<^verbatim>\<open>len(m)\<close> counts the entries, and \<^verbatim>\<open>clear(m)\<close> removes them all; both accept \<^verbatim>\<open>nil\<close>.\<close>

definition map_len :: "('k \<times> 'v) list list \<Rightarrow> mapref \<Rightarrow> int" where
  "map_len h m = (case m of None \<Rightarrow> 0 | Some a \<Rightarrow> int (length (h ! a)))"

definition map_clear :: "mapref \<Rightarrow> (unit, ('t, 'l, ('k \<times> 'v) list list) world) go" where
  "map_clear m s = (case m of None \<Rightarrow> ret () s | Some a \<Rightarrow> ret () (s\<lparr>heap := (heap s)[a := []]\<rparr>))"

text \<open>\<^verbatim>\<open>return RWMtxMap[K, V]{RWMtx: NewRWMtx(make(map[K]V))}\<close>\<close>

definition NewRWMtxMap :: "'l \<Rightarrow> ('k \<times> 'v) list list \<Rightarrow> (mapref, 'l, ('k \<times> 'v) list list) world" where
  "NewRWMtxMap l h = NewRWMtx (Some (length h)) l (h @ [[]])"

text \<open>\<^verbatim>\<open>m.With(func(m *map[K]V) { (*m)[k] = v })\<close>\<close>

definition Store ::
  "'k keytype \<Rightarrow> 'k \<Rightarrow> 'v \<Rightarrow> (unit, (mapref, 'l, ('k \<times> 'v) list list) world) go" where
  "Store ks k x = With (\<lambda>m s. map_assign ks (deref m s) k x s)"

text \<open>\<^verbatim>\<open>m.RWith(func(m map[K]V) { out, ok = m[k] }); return\<close>\<close>

definition Load ::
  "'k keytype \<Rightarrow> 'v \<Rightarrow> 'k \<Rightarrow> ('v \<times> bool, (mapref, 'l, ('k \<times> 'v) list list) world) go" where
  "Load ks z k =
     named_results (z, False)
       (RWith (\<lambda>m. bnd (map_index ks z m k) set_results))"

text \<open>\<^verbatim>\<open>m.With(func(m *map[K]V) { out, loaded = (*m)[k]; delete(*m, k) }); return\<close>\<close>

definition LoadAndDelete ::
  "'k keytype \<Rightarrow> 'v \<Rightarrow> 'k \<Rightarrow> ('v \<times> bool, (mapref, 'l, ('k \<times> 'v) list list) world) go" where
  "LoadAndDelete ks z k =
     named_results (z, False)
       (With (\<lambda>m.
          bnd (\<lambda>s. map_index ks z (deref m s) k s) (\<lambda>r.
          bnd (set_results r) (\<lambda>_ s.
          map_delete ks (deref m s) k s))))"

text \<open>\<^verbatim>\<open>m.With(func(m *map[K]V) { delete(*m, k) }); return\<close>\<close>

definition Delete ::
  "'k keytype \<Rightarrow> 'k \<Rightarrow> (unit, (mapref, 'l, ('k \<times> 'v) list list) world) go" where
  "Delete ks k = With (\<lambda>m s. map_delete ks (deref m s) k s)"

text \<open>\<^verbatim>\<open>m.RWith(func(m map[K]V) { out = len(m) }); return\<close>\<close>

definition Len_map :: "(int, (mapref, 'l, ('k \<times> 'v) list list) world) go" where
  "Len_map = named_results 0 (RWith (\<lambda>m s. set_results (map_len (heap s) m) s))"

text \<open>\<^verbatim>\<open>m.With(func(m *map[K]V) { clear(*m) })\<close>\<close>

definition Clear_map :: "(unit, (mapref, 'l, ('k \<times> 'v) list list) world) go" where
  "Clear_map = With (\<lambda>m s. map_clear (deref m s) s)"

text \<open>
  What lookups in the guarded map find, as a partial function; a \<^verbatim>\<open>nil\<close> map has no
  entry, and a key that differs from itself is never found. A reference held by a
  running program points to an allocated table.
\<close>

definition entries ::
  "'k keytype \<Rightarrow> (mapref, 'l, ('k \<times> 'v) list list) world \<Rightarrow> ('k \<rightharpoonup> 'v)" where
  "entries ks s k = (case v s of None \<Rightarrow> None | Some a \<Rightarrow> find_entry ks (heap s ! a) k)"

definition wf_map :: "(mapref, 'l, ('k \<times> 'v) list list) world \<Rightarrow> bool" where
  "wf_map s \<longleftrightarrow> (case v s of None \<Rightarrow> True | Some a \<Rightarrow> a < length (heap s))"

text \<open>
  A table the caller holds apart from the guard: allocated, and not the guard's own.
\<close>

definition apart :: "nat \<Rightarrow> (mapref, 'l, ('k \<times> 'v) list list) world \<Rightarrow> bool" where
  "apart r s \<longleftrightarrow> r < length (heap s) \<and> v s \<noteq> Some r"

subsection \<open>Slices\<close>

text \<open>
  A Go slice is a window on a backing array: where the array is (\<open>base\<close>, \<open>None\<close> for
  the \<^verbatim>\<open>nil\<close> slice), where the window starts in it (\<open>off\<close>), its length and its
  capacity. Backing arrays live in the heap; the address of an array is its position
  there, and an allocation takes the next position. Two slices with the same base share
  their elements.
\<close>

record slice =
  base :: "nat option"
  off :: nat
  len :: nat
  cap :: nat

definition nil_slice :: slice where
  "nil_slice = \<lparr>base = None, off = 0, len = 0, cap = 0\<rparr>"

text \<open>The elements seen through a slice.\<close>

definition elems :: "'a list list \<Rightarrow> slice \<Rightarrow> 'a list" where
  "elems h sl = (case base sl of None \<Rightarrow> [] | Some a \<Rightarrow> take (len sl) (drop (off sl) (h ! a)))"

text \<open>Writing \<open>ys\<close> into an array from position \<open>n\<close> on.\<close>

definition overwrite :: "nat \<Rightarrow> 'a list \<Rightarrow> 'a list \<Rightarrow> 'a list" where
  "overwrite n ys xs = take n xs @ ys @ drop (n + length ys) xs"

text \<open>\<^verbatim>\<open>s[i]\<close> panics unless \<open>0 \<le> i < len(s)\<close>.\<close>

definition index_slice :: "slice \<Rightarrow> int \<Rightarrow> ('a, ('t, 'l, 'a list list) world) go" where
  "index_slice sl i s =
     (if 0 \<le> i \<and> i < int (len sl) then ret (elems (heap s) sl ! nat i) s
      else raise IndexOutOfRange s)"

text \<open>\<^verbatim>\<open>s[i] = x\<close> panics unless \<open>0 \<le> i < len(s)\<close>.\<close>

definition assign_slice :: "slice \<Rightarrow> int \<Rightarrow> 'a \<Rightarrow> (unit, ('t, 'l, 'a list list) world) go" where
  "assign_slice sl i x s =
     (if 0 \<le> i \<and> i < int (len sl) then
        (case base sl of
           None \<Rightarrow> raise IndexOutOfRange s
         | Some a \<Rightarrow> ret () (s\<lparr>heap := (heap s)[a := (heap s ! a)[off sl + nat i := x]]\<rparr>))
      else raise IndexOutOfRange s)"

text \<open>\<^verbatim>\<open>s[i:]\<close> panics unless \<open>0 \<le> i \<le> len(s)\<close>.\<close>

definition slice_from :: "slice \<Rightarrow> int \<Rightarrow> (slice, 's) go" where
  "slice_from sl i s =
     (if 0 \<le> i \<and> i \<le> int (len sl)
      then ret (sl\<lparr>off := off sl + nat i, len := len sl - nat i, cap := cap sl - nat i\<rparr>) s
      else raise SliceBoundsOutOfRange s)"

text \<open>\<^verbatim>\<open>s[:j]\<close> panics unless \<open>0 \<le> j \<le> cap(s)\<close>.\<close>

definition slice_to :: "slice \<Rightarrow> int \<Rightarrow> (slice, 's) go" where
  "slice_to sl j s =
     (if 0 \<le> j \<and> j \<le> int (cap sl) then ret (sl\<lparr>len := nat j\<rparr>) s
      else raise SliceBoundsOutOfRange s)"

text \<open>
  \<^verbatim>\<open>copy(dst, src)\<close> moves \<open>min(len(dst), len(src))\<close> elements, reading all of them
  before it writes (the two may overlap), and returns their number.
\<close>

definition copy_slice :: "slice \<Rightarrow> slice \<Rightarrow> (int, ('t, 'l, 'a list list) world) go" where
  "copy_slice dst src s =
     (let n = min (len dst) (len src) in
      case base dst of
        None \<Rightarrow> ret (int n) s
      | Some a \<Rightarrow>
          ret (int n)
            (s\<lparr>heap := (heap s)[a := overwrite (off dst) (take n (elems (heap s) src)) (heap s ! a)]\<rparr>))"

text \<open>\<^verbatim>\<open>make([]T, n)\<close>: a new array of \<open>n\<close> zero values \<open>z\<close>.\<close>

definition make_slice :: "'a \<Rightarrow> nat \<Rightarrow> (slice, ('t, 'l, 'a list list) world) go" where
  "make_slice z n s =
     ret \<lparr>base = Some (length (heap s)), off = 0, len = n, cap = n\<rparr>
       (s\<lparr>heap := heap s @ [replicate n z]\<rparr>)"

text \<open>\<^verbatim>\<open>[]T{x1, ..., xn}\<close>: a new array holding the listed elements.\<close>

definition slice_lit :: "'a list \<Rightarrow> (slice, ('t, 'l, 'a list list) world) go" where
  "slice_lit xs s =
     ret \<lparr>base = Some (length (heap s)), off = 0, len = length xs, cap = length xs\<rparr>
       (s\<lparr>heap := heap s @ [xs]\<rparr>)"

text \<open>
  \<^verbatim>\<open>append(s, els...)\<close> writes behind the window when the capacity suffices, and
  otherwise moves the elements to a new, larger array. How much larger is the runtime's
  choice (\<^verbatim>\<open>runtime.growslice\<close>, not part of the repository): \<open>slack c n\<close> is the room
  the runtime leaves beyond the \<open>n\<close> elements needed when the old capacity was \<open>c\<close>,
  filled with the zero value \<open>z\<close>.
\<close>

definition append_slice ::
  "(nat \<Rightarrow> nat \<Rightarrow> nat) \<Rightarrow> 'a \<Rightarrow> slice \<Rightarrow> 'a list \<Rightarrow> (slice, ('t, 'l, 'a list list) world) go" where
  "append_slice slack z sl els s =
     (let n = len sl + length els in
      if n \<le> cap sl then
        (case base sl of
           None \<Rightarrow> ret sl s
         | Some a \<Rightarrow>
             ret (sl\<lparr>len := n\<rparr>)
               (s\<lparr>heap := (heap s)[a := overwrite (off sl + len sl) els (heap s ! a)]\<rparr>))
      else
        ret \<lparr>base = Some (length (heap s)), off = 0, len = n, cap = n + slack (cap sl) n\<rparr>
          (s\<lparr>heap := heap s @ [elems (heap s) sl @ els @ replicate (slack (cap sl) n) z]\<rparr>))"

text \<open>
  What the runtime keeps true of every slice a program holds: the window lies inside an
  allocated array, and a \<^verbatim>\<open>nil\<close> slice is empty.
\<close>

definition wf_slice :: "'a list list \<Rightarrow> slice \<Rightarrow> bool" where
  "wf_slice h sl \<longleftrightarrow>
     len sl \<le> cap sl \<and>
     (case base sl of
        None \<Rightarrow> cap sl = 0
      | Some a \<Rightarrow> a < length h \<and> off sl + cap sl \<le> length (h ! a))"

subsection \<open>RWMtxSlice\<close>

text \<open>\<^verbatim>\<open>s.With(func(v *[]T) { *v = nil; *v = make([]T, 0) })\<close>\<close>

definition Clear :: "'a \<Rightarrow> (unit, (slice, 'l, 'a list list) world) go" where
  "Clear z = With (\<lambda>p. bnd (store p nil_slice) (\<lambda>_. bnd (make_slice z 0) (store p)))"

text \<open>
  \<^verbatim>\<open>s.With(func(v *[]T) {
      out = (*v)[i]
      *v = (*v)[:i+copy((*v)[i:], (*v)[i+1:])]
  }); return\<close>
  The index \<open>i\<close> is a Go \<^verbatim>\<open>int\<close>; \<open>i + 1\<close> and \<open>i + copy(...)\<close> are computed only after
  \<open>(*v)[i]\<close> has checked \<open>i < len(*v)\<close>, so they do not overflow.
\<close>

definition Remove :: "'a \<Rightarrow> int \<Rightarrow> ('a, (slice, 'l, 'a list list) world) go" where
  "Remove z i =
     named_results z
       (With (\<lambda>p.
          bnd (\<lambda>s. index_slice (deref p s) i s) (\<lambda>x.
          bnd (set_results x) (\<lambda>_.
          bnd (\<lambda>s. slice_from (deref p s) i s) (\<lambda>dst.
          bnd (\<lambda>s. slice_from (deref p s) (i + 1) s) (\<lambda>src.
          bnd (copy_slice dst src) (\<lambda>n.
          bnd (\<lambda>s. slice_to (deref p s) (i + n) s) (store p))))))))"

text \<open>\<^verbatim>\<open>s.With(func(v *[]T) { *v = append(*v, els...) })\<close>\<close>

definition Append :: "(nat \<Rightarrow> nat \<Rightarrow> nat) \<Rightarrow> 'a \<Rightarrow> 'a list \<Rightarrow> (unit, (slice, 'l, 'a list list) world) go" where
  "Append slack z els = With (\<lambda>p. bnd (\<lambda>s. append_slice slack z (deref p s) els s) (store p))"

text \<open>\<^verbatim>\<open>s.With(func(v *[]T) { *v = append([]T{el}, *v...) })\<close>\<close>

definition Unshift :: "(nat \<Rightarrow> nat \<Rightarrow> nat) \<Rightarrow> 'a \<Rightarrow> 'a \<Rightarrow> (unit, (slice, 'l, 'a list list) world) go" where
  "Unshift slack z el =
     With (\<lambda>p.
       bnd (slice_lit [el]) (\<lambda>t.
       bnd (\<lambda>s. append_slice slack z t (elems (heap s) (deref p s)) s) (store p)))"

text \<open>\<^verbatim>\<open>s.RWith(func(v []T) { out = make([]T, len(v)); copy(out, v) }); return\<close>\<close>

definition Clone :: "'a \<Rightarrow> (slice, (slice, 'l, 'a list list) world) go" where
  "Clone z =
     named_results nil_slice
       (RWith (\<lambda>x.
          bnd (make_slice z (len x)) (\<lambda>out.
          bnd (set_results out) (\<lambda>_.
          bnd (copy_slice out x) (\<lambda>_. ret ())))))"

text \<open>\<^verbatim>\<open>s.RWith(func(v []T) { out = len(v) }); return\<close>\<close>

definition Len :: "(int, (slice, 'l, 'a list list) world) go" where
  "Len = named_results 0 (RWith (\<lambda>x. set_results (int (len x))))"

text \<open>
  \<^verbatim>\<open>s.RWith(func(v []T) { for _, e := range v { clb(e) } })\<close>: the length is taken once,
  each element is read when its turn comes.
\<close>

fun each_loop ::
  "('a \<Rightarrow> (unit, ('t, 'l, 'a list list) world) go) \<Rightarrow> slice \<Rightarrow> nat list \<Rightarrow>
   (unit, ('t, 'l, 'a list list) world) go" where
  "each_loop clb x [] = ret ()"
| "each_loop clb x (i # is) =
     bnd (index_slice x (int i)) (\<lambda>e. bnd (clb e) (\<lambda>_. each_loop clb x is))"

definition Each ::
  "('a \<Rightarrow> (unit, (slice, 'l, 'a list list) world) go) \<Rightarrow> (unit, (slice, 'l, 'a list list) world) go" where
  "Each clb = RWith (\<lambda>x. each_loop clb x [0..<len x])"

subsection \<open>Comparing outcomes\<close>

text \<open>The outcome of a call with its returned value replaced; halts and panics stay.\<close>

definition map_ret :: "('a \<Rightarrow> 'b) \<Rightarrow> halt + ('a res \<times> 's) \<Rightarrow> halt + ('b res \<times> 's)" where
  "map_ret f r =
     (case r of
        Inl h \<Rightarrow> Inl h
      | Inr (Panic p, s) \<Rightarrow> Inr (Panic p, s)
      | Inr (Ret x, s) \<Rightarrow> Inr (Ret (f x), s))"

text \<open>The value a call returned, if it returned.\<close>

definition returned :: "halt + ('a res \<times> 's) \<Rightarrow> 'a option" where
  "returned r = (case r of Inr (Ret x, s) \<Rightarrow> Some x | _ \<Rightarrow> None)"

subsection \<open>Programs over a slice guard and a copy of it\<close>

text \<open>
  A caller that holds a slice \<open>c\<close> next to the guard can call the mutators of
  \<^verbatim>\<open>RWMtxSlice\<close> and can assign to the elements of \<open>c\<close> (\<^verbatim>\<open>c[i] = x\<close>, outside any
  lock). A panic is recovered by the caller, as the test of the out-of-bounds
  \<^verbatim>\<open>Remove\<close> does, and the program goes on.
\<close>

datatype 'a action =
    GuardAppend "'a list"
  | GuardUnshift 'a
  | GuardRemove int
  | GuardClear
  | CopyAssign int 'a

fun step ::
  "(nat \<Rightarrow> nat \<Rightarrow> nat) \<Rightarrow> 'a \<Rightarrow> slice \<Rightarrow> 'a action \<Rightarrow> (unit, (slice, 'l, 'a list list) world) go" where
  "step slack z c (GuardAppend els) = Append slack z els"
| "step slack z c (GuardUnshift el) = Unshift slack z el"
| "step slack z c (GuardRemove i) = bnd (Remove z i) (\<lambda>_. ret ())"
| "step slack z c GuardClear = Clear z"
| "step slack z c (CopyAssign i x) = assign_slice c i x"

fun run ::
  "(nat \<Rightarrow> nat \<Rightarrow> nat) \<Rightarrow> 'a \<Rightarrow> slice \<Rightarrow> 'a action list \<Rightarrow>
   (slice, 'l, 'a list list) world \<Rightarrow> halt + (slice, 'l, 'a list list) world" where
  "run slack z c [] s = Inr s"
| "run slack z c (a # as) s =
     (case step slack z c a s of Inl h \<Rightarrow> Inl h | Inr (r, s') \<Rightarrow> run slack z c as s')"

text \<open>
  What the spec says each action does to the guarded sequence, and to the copy: the
  mutators of the guard act on the guarded sequence only, an assignment to the copy acts
  on the copy only. An index out of range changes nothing.
\<close>

fun spec_guard :: "'a action \<Rightarrow> 'a list \<Rightarrow> 'a list" where
  "spec_guard (GuardAppend els) xs = xs @ els"
| "spec_guard (GuardUnshift el) xs = el # xs"
| "spec_guard (GuardRemove i) xs =
     (if 0 \<le> i \<and> i < int (length xs) then take (nat i) xs @ drop (Suc (nat i)) xs else xs)"
| "spec_guard GuardClear xs = []"
| "spec_guard (CopyAssign i x) xs = xs"

fun spec_copy :: "'a action \<Rightarrow> 'a list \<Rightarrow> 'a list" where
  "spec_copy (CopyAssign i x) xs = (if 0 \<le> i \<and> i < int (length xs) then xs[nat i := x] else xs)"
| "spec_copy a xs = xs"

text \<open>
  What a mutator of the slice guard may do to the world: it leaves the lock free and the
  guarded slice well formed, and it touches no array but the one the guard pointed to and
  those it allocates.
\<close>

definition guard_step ::
  "(slice, 'l, 'a list list) world \<Rightarrow> (slice, 'l, 'a list list) world \<Rightarrow> bool" where
  "guard_step s s' \<longleftrightarrow>
     unlocked s' \<and> wf_slice (heap s') (v s') \<and> vars s' = vars s \<and>
     length (heap s) \<le> length (heap s') \<and>
     (\<forall>a<length (heap s). base (v s) \<noteq> Some a \<longrightarrow> heap s' ! a = heap s ! a) \<and>
     (base (v s') = base (v s) \<or> (\<exists>a\<ge>length (heap s). base (v s') = Some a))"

text \<open>The slice \<open>c\<close> lives in an array of its own, apart from the guard's.\<close>

definition indep :: "slice \<Rightarrow> (slice, 'l, 'a list list) world \<Rightarrow> bool" where
  "indep c s \<longleftrightarrow>
     unlocked s \<and> wf_slice (heap s) (v s) \<and> wf_slice (heap s) c \<and>
     (\<exists>b. base c = Some b \<and> base (v s) \<noteq> Some b)"

subsection \<open>Goroutines\<close>

text \<open>
  Several goroutines call the operations of one guard. The world holds the guard and
  the heap, which they share, and in \<open>vars\<close> the variables of each goroutine: those
  of goroutine \<open>i\<close> at position \<open>i\<close>. Statements of different goroutines run one at
  a time, in any order the lock allows; this is what Go promises a program whose every
  access to the guarded value is made under the guard's lock.

  A call is a scoped access, as every public operation of the package is: it takes the
  lock, runs the statements of its callback, releases the lock. A statement of a read
  callback sees the guarded value and the heap and assigns the goroutine's own
  variables (a copy it allocates counts among them); a statement of a write callback
  may assign the guarded value and the heap as well. The callbacks return, and leave
  the lock alone.
\<close>

datatype ('t, 'h, 'l) op =
    ReadOp "('t \<times> 'h \<Rightarrow> 'l \<Rightarrow> 'l) list"
  | WriteOp "('t \<times> 'h \<Rightarrow> 'l \<Rightarrow> ('t \<times> 'h) \<times> 'l) list"

text \<open>One statement of a callback of goroutine \<open>i\<close>: of a read callback that was handed
  the value \<open>x\<close>, and of a write callback that was handed the pointer \<open>p\<close>.\<close>

definition rstmt ::
  "nat \<Rightarrow> 't \<Rightarrow> ('t \<times> 'h \<Rightarrow> 'l \<Rightarrow> 'l) \<Rightarrow> (unit, ('t, 'l list, 'h) world) go" where
  "rstmt i x f w = ret () (w\<lparr>vars := (vars w)[i := f (x, heap w) (vars w ! i)]\<rparr>)"

definition wstmt ::
  "nat \<Rightarrow> ('t, ('t, 'l list, 'h) world) ptr \<Rightarrow> ('t \<times> 'h \<Rightarrow> 'l \<Rightarrow> ('t \<times> 'h) \<times> 'l) \<Rightarrow>
   (unit, ('t, 'l list, 'h) world) go" where
  "wstmt i p f w =
     (case f (deref p w, heap w) (vars w ! i) of
        ((x, h), l) \<Rightarrow> ret () ((assign p x w)\<lparr>heap := h, vars := (vars w)[i := l]\<rparr>))"

fun seq :: "(unit, 's) go list \<Rightarrow> (unit, 's) go" where
  "seq [] = ret ()"
| "seq (m # ms) = bnd m (\<lambda>_. seq ms)"

text \<open>
  The call as the package runs it when nothing else runs: \<^verbatim>\<open>RWith\<close> or \<^verbatim>\<open>With\<close> of
  the callback made of the statements.
\<close>

fun call :: "nat \<Rightarrow> ('t, 'h, 'l) op \<Rightarrow> (unit, ('t, 'l list, 'h) world) go" where
  "call i (ReadOp fs) = RWith (\<lambda>x. seq (map (rstmt i x) fs))"
| "call i (WriteOp fs) = With (\<lambda>p. seq (map (wstmt i p) fs))"

text \<open>
  Where a goroutine is: between calls, or inside a read or a write callback with
  some statements still to run; and the calls it has still to make.
\<close>

datatype ('t, 'h, 'l) phase =
    Idle
  | Reading "('t \<times> 'h \<Rightarrow> 'l \<Rightarrow> 'l) list"
  | Writing "('t \<times> 'h \<Rightarrow> 'l \<Rightarrow> ('t \<times> 'h) \<times> 'l) list"

type_synonym ('t, 'h, 'l) goroutine = "('t, 'h, 'l) phase \<times> ('t, 'h, 'l) op list"

text \<open>
  One step of goroutine \<open>i\<close>: the next lock operation (\<open>RLock\<close>, \<open>Lock\<close>, \<open>RUnlock\<close>
  and \<open>Unlock\<close> above) or the next statement of its callback. There is no step when
  the goroutine has finished or when the lock makes it wait. The flag tells whether
  the step took the lock.
\<close>

definition settle ::
  "halt + (unit res \<times> 'w) \<Rightarrow> 'g \<Rightarrow> bool \<Rightarrow> ('w \<times> 'g \<times> bool) option" where
  "settle r g acq = (case r of Inr (Ret u, w') \<Rightarrow> Some (w', g, acq) | _ \<Rightarrow> None)"

fun go_step1 ::
  "nat \<Rightarrow> ('t, 'l list, 'h) world \<Rightarrow> ('t, 'h, 'l) goroutine \<Rightarrow>
   (('t, 'l list, 'h) world \<times> ('t, 'h, 'l) goroutine \<times> bool) option" where
  "go_step1 i w (Idle, []) = None"
| "go_step1 i w (Idle, ReadOp fs # ops) = settle (RLock w) (Reading fs, ops) True"
| "go_step1 i w (Idle, WriteOp fs # ops) = settle (Lock w) (Writing fs, ops) True"
| "go_step1 i w (Reading (f # fs), ops) = settle (rstmt i (v w) f w) (Reading fs, ops) False"
| "go_step1 i w (Reading [], ops) = settle (RUnlock w) (Idle, ops) False"
| "go_step1 i w (Writing (f # fs), ops) = settle (wstmt i addr_v f w) (Writing fs, ops) False"
| "go_step1 i w (Writing [], ops) = settle (Unlock w) (Idle, ops) False"

definition go_step ::
  "nat \<Rightarrow> ('t, 'l list, 'h) world \<times> ('t, 'h, 'l) goroutine list \<Rightarrow>
   ((('t, 'l list, 'h) world \<times> ('t, 'h, 'l) goroutine list) \<times> bool) option" where
  "go_step i c =
     (case c of (w, gs) \<Rightarrow>
        if i < length gs then
          (case go_step1 i w (gs ! i) of
             None \<Rightarrow> None
           | Some (w', g', acq) \<Rightarrow> Some ((w', gs[i := g']), acq))
        else None)"

text \<open>
  A schedule names the goroutine that takes each step. The run of a schedule gives the
  world and the goroutines it ends in, and the goroutines in the order in which they
  took the lock: one entry for each call begun, so that a call that released the lock
  before another took it comes earlier.
\<close>

fun interleave ::
  "nat list \<Rightarrow> ('t, 'l list, 'h) world \<times> ('t, 'h, 'l) goroutine list \<Rightarrow>
   ((('t, 'l list, 'h) world \<times> ('t, 'h, 'l) goroutine list) \<times> nat list) option" where
  "interleave [] c = Some (c, [])"
| "interleave (i # sched) c =
     (case go_step i c of
        None \<Rightarrow> None
      | Some (c', acq) \<Rightarrow>
          (case interleave sched c' of
             None \<Rightarrow> None
           | Some (c'', order) \<Rightarrow> Some (c'', if acq then i # order else order)))"


text \<open>What the statements still to run will have done when the callback ends.\<close>

definition rfold :: "('t \<times> 'h \<Rightarrow> 'l \<Rightarrow> 'l) list \<Rightarrow> 't \<times> 'h \<Rightarrow> 'l \<Rightarrow> 'l" where
  "rfold fs sh l = fold (\<lambda>f. f sh) fs l"

fun wfold ::
  "('t \<times> 'h \<Rightarrow> 'l \<Rightarrow> ('t \<times> 'h) \<times> 'l) list \<Rightarrow> ('t \<times> 'h) \<times> 'l \<Rightarrow> ('t \<times> 'h) \<times> 'l" where
  "wfold [] p = p"
| "wfold (f # fs) p = wfold fs (f (fst p) (snd p))"

definition reading :: "('t, 'h, 'l) goroutine \<Rightarrow> bool" where
  "reading g \<longleftrightarrow> (case fst g of Reading fs \<Rightarrow> True | _ \<Rightarrow> False)"

definition writing :: "('t, 'h, 'l) goroutine \<Rightarrow> bool" where
  "writing g \<longleftrightarrow> (case fst g of Writing fs \<Rightarrow> True | _ \<Rightarrow> False)"



definition Load_op ::
  "'k keytype \<Rightarrow> 'v \<Rightarrow> 'k \<Rightarrow> (mapref, ('k \<times> 'v) list list, 'v \<times> bool) op" where
  "Load_op ks z k = ReadOp [\<lambda>sh l. map_lookup ks z (snd sh) (fst sh) k]"

definition Delete_op ::
  "'k keytype \<Rightarrow> 'k \<Rightarrow> (mapref, ('k \<times> 'v) list list, 'v \<times> bool) op" where
  "Delete_op ks k = WriteOp [\<lambda>sh l. ((fst sh, map_erase ks (snd sh) (fst sh) k), l)]"

text \<open>
  \<^verbatim>\<open>Get\<close> and \<^verbatim>\<open>Set(x)\<close> as a goroutine makes them; \<^verbatim>\<open>Get\<close> leaves what it
  returned in the goroutine's variable. They take and release the lock as \<^verbatim>\<open>RWith\<close>
  and \<^verbatim>\<open>With\<close> do, around one statement.
\<close>

definition Get_op :: "('t, 'h, 't) op" where
  "Get_op = ReadOp [\<lambda>sh l. fst sh]"

definition Set_op :: "'t \<Rightarrow> ('t, 'h, 'l) op" where
  "Set_op x = WriteOp [\<lambda>sh l. ((x, snd sh), l)]"

subsection \<open>Worlds and programs of the tests\<close>

text \<open>A runtime that grows an array to exactly the length needed.\<close>

definition exact_fit :: "nat \<Rightarrow> nat \<Rightarrow> nat" where
  "exact_fit c n = 0"

text \<open>\<^verbatim>\<open>var s RWMtxSlice[int]\<close>, and the same guard after \<^verbatim>\<open>s.Append(1, 2, 3)\<close>.\<close>

definition zero_slice_guard :: "(slice, unit, int list list) world" where
  "zero_slice_guard = NewRWMtx nil_slice () []"

definition slice_123 :: "(slice, unit, int list list) world" where
  "slice_123 =
     \<lparr>RWMutex = \<lparr>readers = 0, writer = False\<rparr>,
      v = \<lparr>base = Some 0, off = 0, len = 3, cap = 3\<rparr>, vars = (), heap = [[1, 2, 3]]\<rparr>"

text \<open>
  The guard holding \<open>[1, 2, 3]\<close> next to a slice \<open>[7, 8]\<close> that the caller made, with
  a variable \<open>seen\<close> of the caller, an empty list; and the callback
  \<^verbatim>\<open>func(e int) { seen = append(seen, e) }\<close>.
\<close>

definition slice_123_and_78 :: "(slice, int list, int list list) world" where
  "slice_123_and_78 =
     \<lparr>RWMutex = \<lparr>readers = 0, writer = False\<rparr>,
      v = \<lparr>base = Some 0, off = 0, len = 3, cap = 3\<rparr>, vars = [], heap = [[1, 2, 3], [7, 8]]\<rparr>"

definition caller_78 :: slice where
  "caller_78 = \<lparr>base = Some 1, off = 0, len = 2, cap = 2\<rparr>"

definition collect :: "int \<Rightarrow> (unit, (slice, int list, int list list) world) go" where
  "collect e t = ret () (t\<lparr>vars := vars t @ [e]\<rparr>)"

text \<open>\<^verbatim>\<open>h := s.Get(); h[0] = 99; return s.Clone()\<close>\<close>

definition get_assign_clone :: "(int list, (slice, unit, int list list) world) go" where
  "get_assign_clone =
     bnd Get (\<lambda>h.
     bnd (assign_slice h 0 99) (\<lambda>_.
     bnd (Clone 0) (\<lambda>c s. ret (elems (heap s) c) s)))"

text \<open>
  Key types. With \<open>K = string\<close> every key can be hashed and equals itself. With
  \<open>K = any\<close> a key is a value of any type: a string, a \<^verbatim>\<open>float64\<close> that is a number
  or NaN, a \<^verbatim>\<open>[]int\<close>, which cannot be hashed.
\<close>

definition string_keys :: "string keytype" where
  "string_keys = \<lparr>hashable = (\<lambda>k. True), self_equal = (\<lambda>k. True)\<rparr>"

datatype anykey = KString string | KNumber int | KNaN | KSlice "int list"

definition any_keys :: "anykey keytype" where
  "any_keys =
     \<lparr>hashable = (\<lambda>k. case k of KSlice xs \<Rightarrow> False | _ \<Rightarrow> True),
      self_equal = (\<lambda>k. k \<noteq> KNaN)\<rparr>"

text \<open>
  \<^verbatim>\<open>var m RWMtxMap[string, int]\<close>, the zero value, whose map is \<^verbatim>\<open>nil\<close>;
  \<^verbatim>\<open>NewRWMtxMap[string, int]()\<close> after \<^verbatim>\<open>m.Store("b", 2)\<close>; and
  \<^verbatim>\<open>NewRWMtxMap[any, int]()\<close>.
\<close>

definition zero_map_guard :: "(mapref, unit, (string \<times> int) list list) world" where
  "zero_map_guard = NewRWMtx None () []"


text \<open>The guard holding \<open>2\<close> under \<open>"b"\<close> next to a map the caller made, with \<open>3\<close> under \<open>"c"\<close>.\<close>

definition map_b2_and_c3 :: "(mapref, unit, (string \<times> int) list list) world" where
  "map_b2_and_c3 =
     \<lparr>RWMutex = \<lparr>readers = 0, writer = False\<rparr>,
      v = Some 0, vars = (), heap = [[(''b'', 2)], [(''c'', 3)]]\<rparr>"

definition any_map_guard :: "(mapref, unit, (anykey \<times> int) list list) world" where
  "any_map_guard = NewRWMtxMap () []"

text \<open>
  \<^verbatim>\<open>mtx := NewRWMtx(1)\<close> and the callback
  \<^verbatim>\<open>func(v *int) error { *v = 100; return fmt.Errorf("fail") }\<close>.
\<close>

definition guard_1 :: "(int, unit, unit) world" where
  "guard_1 = NewRWMtx 1 () ()"

definition set_100_and_fail :: "(int, (int, unit, unit) world) ptr \<Rightarrow> (string option, (int, unit, unit) world) go" where
  "set_100_and_fail p = bnd (store p 100) (\<lambda>_. ret (Some ''fail''))"

definition see_and_fail :: "int \<Rightarrow> (string option, (int, unit, unit) world) go" where
  "see_and_fail x = ret (Some ''fail'')"

text \<open>
  Two goroutines on the map guard holding \<open>2\<close> under \<open>"b"\<close>; the variables of each are
  the results \<open>out\<close> and \<open>loaded\<close>, at their zero values.
\<close>

definition map_b2_shared :: "(mapref, (int \<times> bool) list, (string \<times> int) list list) world" where
  "map_b2_shared =
     \<lparr>RWMutex = \<lparr>readers = 0, writer = False\<rparr>,
      v = Some 0, vars = [(0, False), (0, False)], heap = [[(''b'', 2)]]\<rparr>"




section \<open>Properties\<close>

subsection \<open>Running a call\<close>

lemmas go_defs = ret_def raise_def bnd_def deferred_def RLock_def RUnlock_def Lock_def Unlock_def
  store_def addr_v_def named_results_def set_results_def

lemma map_ret_simps [simp]:
  "map_ret f (Inl h) = Inl h"
  "map_ret f (Inr (Panic p, s)) = Inr (Panic p, s)"
  "map_ret f (Inr (Ret x, s)) = Inr (Ret (f x), s)"
  by (simp_all add: map_ret_def)

lemma bnd_ret_const: "bnd m (\<lambda>_. ret c) s = map_ret (\<lambda>_. c) (m s)"
proof (cases "m s")
  case (Inl h)
  then show ?thesis by (simp add: bnd_def)
next
  case (Inr q)
  obtain r s' where q: "q = (r, s')" by (cases q)
  show ?thesis using Inr q by (cases r) (simp_all add: bnd_def ret_def)
qed

lemma bnd_ret_const_fun: "bnd m (\<lambda>_. ret c) = (\<lambda>s. map_ret (\<lambda>_. c) (m s))"
  by (rule ext) (rule bnd_ret_const)

lemma map_ret_map_ret: "map_ret f (map_ret g r) = map_ret (\<lambda>x. f (g x)) r"
proof (cases r)
  case (Inl h)
  then show ?thesis by simp
next
  case (Inr q)
  obtain x s' where q: "q = (x, s')" by (cases q)
  show ?thesis using Inr q by (cases x) simp_all
qed

lemma map_ret_bnd: "map_ret f (bnd m k s) = bnd m (\<lambda>x s. map_ret f (k x s)) s"
proof (cases "m s")
  case (Inl h)
  then show ?thesis by (simp add: bnd_def)
next
  case (Inr q)
  obtain r s' where q: "q = (r, s')" by (cases q)
  show ?thesis using Inr q by (cases r) (simp_all add: bnd_def)
qed

lemma map_ret_deferred: "map_ret f (deferred d body s) = deferred d (\<lambda>s. map_ret f (body s)) s"
proof (cases "body s")
  case (Inl h)
  then show ?thesis by (simp add: deferred_def)
next
  case body: (Inr q)
  obtain r s' where q: "q = (r, s')" by (cases q)
  show ?thesis
  proof (cases "d s'")
    case (Inl h)
    with body q show ?thesis by (cases r) (simp_all add: deferred_def)
  next
    case (Inr q2)
    obtain r2 s2 where q2: "q2 = (r2, s2)" by (cases q2)
    from body q Inr q2 show ?thesis
      by (cases r; cases r2) (simp_all add: deferred_def)
  qed
qed

lemmas push_map_ret = bnd_ret_const_fun map_ret_bnd map_ret_deferred map_ret_map_ret

lemma unlocked_upd [simp]:
  "unlocked (s\<lparr>v := x\<rparr>) = unlocked s"
  "unlocked (s\<lparr>heap := h\<rparr>) = unlocked s"
  "unlocked (s\<lparr>vars := l\<rparr>) = unlocked s"
  by (simp_all add: unlocked_def)

lemma unlocked_NewRWMtx [simp]: "unlocked (NewRWMtx x l h)"
  by (simp add: unlocked_def NewRWMtx_def)

lemma Get_eq: "unlocked s \<Longrightarrow> Get s = Inr (Ret (v s), s)"
  by (simp add: Get_def go_defs unlocked_def)

subsection \<open>The map guard, call by call\<close>

lemma find_put:
  "find_entry ks (put_entry ks k x tbl) =
     (if self_equal ks k then (find_entry ks tbl)(k \<mapsto> x) else find_entry ks tbl)"
  by (rule ext) (simp add: find_entry_def put_entry_def update_conv' map_add_def split: option.splits)

lemma find_drop: "find_entry ks (drop_entry ks k tbl) = (find_entry ks tbl)(k := None)"
  by (rule ext) (simp add: find_entry_def drop_entry_def delete_conv')

lemma Load_eq:
  "unlocked s \<Longrightarrow>
   Load ks z k s =
     (if hashable ks k then Inr (Ret (map_lookup ks z (heap s) (v s) k), s)
      else Inr (Panic UnhashableKey, s))"
  by (simp add: Load_def RWith_def RWithE_def go_defs map_index_def unlocked_def)

lemma LoadAndDelete_eq:
  "unlocked s \<Longrightarrow>
   LoadAndDelete ks z k s =
     (if hashable ks k
      then Inr (Ret (map_lookup ks z (heap s) (v s) k), s\<lparr>heap := map_erase ks (heap s) (v s) k\<rparr>)
      else Inr (Panic UnhashableKey, s))"
  by (simp add: LoadAndDelete_def With_def WithE_def go_defs map_index_def map_delete_def
      unlocked_def)

lemma Store_eq:
  "unlocked s \<Longrightarrow>
   Store ks k x s =
     (case v s of
        None \<Rightarrow> Inr (Panic NilMapAssignment, s)
      | Some a \<Rightarrow>
          if hashable ks k
          then Inr (Ret (), s\<lparr>heap := (heap s)[a := put_entry ks k x (heap s ! a)]\<rparr>)
          else Inr (Panic UnhashableKey, s))"
  by (simp add: Store_def With_def WithE_def go_defs map_assign_def unlocked_def
      split: option.splits)

lemma Delete_eq:
  "unlocked s \<Longrightarrow>
   Delete ks k s =
     (if hashable ks k then Inr (Ret (), s\<lparr>heap := map_erase ks (heap s) (v s) k\<rparr>)
      else Inr (Panic UnhashableKey, s))"
  by (simp add: Delete_def With_def WithE_def go_defs map_delete_def unlocked_def)

lemma Len_map_eq: "unlocked s \<Longrightarrow> Len_map s = Inr (Ret (map_len (heap s) (v s)), s)"
  by (simp add: Len_map_def RWith_def RWithE_def go_defs unlocked_def)

lemma Clear_map_eq:
  "unlocked s \<Longrightarrow>
   Clear_map s =
     Inr (Ret (), (case v s of None \<Rightarrow> s | Some a \<Rightarrow> s\<lparr>heap := (heap s)[a := []]\<rparr>))"
  by (simp add: Clear_map_def With_def WithE_def go_defs map_clear_def unlocked_def
      split: option.splits)

lemma lookup_entries:
  "map_lookup ks z (heap s) (v s) k =
     (case entries ks s k of None \<Rightarrow> (z, False) | Some x \<Rightarrow> (x, True))"
  by (simp add: map_lookup_def entries_def split: option.splits)

lemma entries_nil: "v s = None \<Longrightarrow> entries ks s = Map.empty"
  by (rule ext) (simp add: entries_def)

lemma entries_heap:
  "wf_map s \<Longrightarrow> v s = Some a \<Longrightarrow> entries ks (s\<lparr>heap := (heap s)[a := tbl]\<rparr>) = find_entry ks tbl"
  by (rule ext) (simp add: entries_def wf_map_def)

lemma entries_at: "v s = Some a \<Longrightarrow> entries ks s = find_entry ks (heap s ! a)"
  by (rule ext) (simp add: entries_def)

lemma entries_erase:
  assumes "wf_map s"
  shows "entries ks (s\<lparr>heap := map_erase ks (heap s) (v s) k\<rparr>) = (entries ks s)(k := None)"
proof (cases "v s")
  case None
  then show ?thesis by (simp add: map_erase_def entries_nil)
next
  case (Some a)
  with entries_heap [OF assms Some, of ks] entries_at [OF Some, of ks] show ?thesis
    by (simp add: map_erase_def find_drop)
qed

lemma erase_absent:
  assumes "entries ks s k = None"
  shows "s\<lparr>heap := map_erase ks (heap s) (v s) k\<rparr> = s"
proof (cases "v s")
  case None
  then show ?thesis by (simp add: map_erase_def)
next
  case (Some a)
  with assms have "find_entry ks (heap s ! a) k = None" by (simp add: entries_def)
  then have "drop_entry ks k (heap s ! a) = heap s ! a"
    by (simp add: find_entry_def drop_entry_def map_of_eq_None_iff split: if_splits)
  with Some show ?thesis by (simp add: map_erase_def)
qed

lemma wf_map_heap: "wf_map s \<Longrightarrow> length h = length (heap s) \<Longrightarrow> wf_map (s\<lparr>heap := h\<rparr>)"
  by (simp add: wf_map_def split: option.splits)

lemma length_erase: "length (map_erase ks h m k) = length h"
  by (simp add: map_erase_def split: option.splits)

lemma wf_map_vars [simp]: "wf_map (s\<lparr>vars := l\<rparr>) = wf_map s"
  by (simp add: wf_map_def split: option.splits)

lemma entries_vars [simp]: "entries ks (s\<lparr>vars := l\<rparr>) = entries ks s"
  by (rule ext) (simp add: entries_def split: option.splits)

subsection \<open>Scoped callbacks\<close>

text \<open>
  C8. A call of \<^verbatim>\<open>WithE\<close> or \<^verbatim>\<open>RWithE\<close> made while the lock is free returns exactly
  what the callback returned, \<^verbatim>\<open>nil\<close> or an error, once the lock is free again. The
  world is the one the callback left (the guarded value, the heap and the captured
  variables as the callback changed them before it returned), with the lock released.
  The callback is one that returns and leaves the lock as it found it.
\<close>

theorem scoped_callback_error_passthrough:
  assumes "unlocked s"
  shows "(clb addr_v (s\<lparr>RWMutex := (RWMutex s)\<lparr>writer := True\<rparr>\<rparr>) = Inr (Ret e, s') \<and>
          RWMutex s' = (RWMutex s)\<lparr>writer := True\<rparr>
          \<longrightarrow> WithE clb s = Inr (Ret e, s'\<lparr>RWMutex := RWMutex s\<rparr>) \<and>
              unlocked (s'\<lparr>RWMutex := RWMutex s\<rparr>))
       \<and> (rclb (v s) (s\<lparr>RWMutex := (RWMutex s)\<lparr>readers := 1\<rparr>\<rparr>) = Inr (Ret e', t') \<and>
          RWMutex t' = (RWMutex s)\<lparr>readers := 1\<rparr>
          \<longrightarrow> RWithE rclb s = Inr (Ret e', t'\<lparr>RWMutex := RWMutex s\<rparr>) \<and>
              unlocked (t'\<lparr>RWMutex := RWMutex s\<rparr>))"
  using assms
  by (simp add: WithE_def RWithE_def go_defs unlocked_def)

text \<open>
  The test \<^verbatim>\<open>TestRWMtx_WithE\<close>, with a callback that also writes: the error comes
  back as it is and the write stays.
\<close>

theorem scoped_callback_error_passthrough_witness:
  "unlocked guard_1 \<and>
   WithE set_100_and_fail guard_1 = Inr (Ret (Some ''fail''), NewRWMtx 100 () ()) \<and>
   RWithE see_and_fail guard_1 = Inr (Ret (Some ''fail''), guard_1)"
proof -
  have u: "unlocked guard_1"
    by (simp add: guard_1_def)
  have w: "set_100_and_fail addr_v (guard_1\<lparr>RWMutex := (RWMutex guard_1)\<lparr>writer := True\<rparr>\<rparr>)
             = Inr (Ret (Some ''fail''), (NewRWMtx 100 () ())\<lparr>RWMutex := (RWMutex guard_1)\<lparr>writer := True\<rparr>\<rparr>)"
    by (simp add: set_100_and_fail_def guard_1_def NewRWMtx_def go_defs)
  have r: "see_and_fail (v guard_1) (guard_1\<lparr>RWMutex := (RWMutex guard_1)\<lparr>readers := 1\<rparr>\<rparr>)
             = Inr (Ret (Some ''fail''), guard_1\<lparr>RWMutex := (RWMutex guard_1)\<lparr>readers := 1\<rparr>\<rparr>)"
    by (simp add: see_and_fail_def ret_def)
  from scoped_callback_error_passthrough [OF u, of set_100_and_fail "Some ''fail''"
      "(NewRWMtx 100 () ())\<lparr>RWMutex := (RWMutex guard_1)\<lparr>writer := True\<rparr>\<rparr>"
      see_and_fail "Some ''fail''" "guard_1\<lparr>RWMutex := (RWMutex guard_1)\<lparr>readers := 1\<rparr>\<rparr>"]
    u w r
  show ?thesis
    by (simp add: guard_1_def NewRWMtx_def)
qed

text \<open>
  C10. \<^verbatim>\<open>RWith(clb)\<close> is \<^verbatim>\<open>RWithE\<close> of the callback that runs \<open>clb\<close> and returns
  \<^verbatim>\<open>nil\<close>, with the error dropped: both reach the same world, halt alike and panic
  alike, and the error that \<^verbatim>\<open>RWithE\<close> returns there is always \<^verbatim>\<open>nil\<close>. The same
  holds of \<^verbatim>\<open>With\<close> and \<^verbatim>\<open>WithE\<close>.
\<close>

theorem With_is_WithE_of_wrapper:
  "RWith clb s = map_ret (\<lambda>_. ()) (RWithE (\<lambda>tx. bnd (clb tx) (\<lambda>_. ret None)) s) \<and>
   RWithE (\<lambda>tx. bnd (clb tx) (\<lambda>_. ret None)) s = map_ret (\<lambda>_. None) (RWith clb s) \<and>
   With wclb s = map_ret (\<lambda>_. ()) (WithE (\<lambda>tx. bnd (wclb tx) (\<lambda>_. ret None)) s) \<and>
   WithE (\<lambda>tx. bnd (wclb tx) (\<lambda>_. ret None)) s = map_ret (\<lambda>_. None) (With wclb s)"
proof -
  have r1: "RWith clb s = map_ret (\<lambda>_. ()) (RWithE (\<lambda>tx. bnd (clb tx) (\<lambda>_. ret None)) s)"
    by (simp add: RWith_def RWithE_def push_map_ret)
  have w1: "With wclb s = map_ret (\<lambda>_. ()) (WithE (\<lambda>tx. bnd (wclb tx) (\<lambda>_. ret None)) s)"
    by (simp add: With_def WithE_def push_map_ret)
  have r2: "RWithE (\<lambda>tx. bnd (clb tx) (\<lambda>_. ret None)) s = map_ret (\<lambda>_. None) (RWith clb s)"
    by (simp add: RWith_def RWithE_def push_map_ret)
  have w2: "WithE (\<lambda>tx. bnd (wclb tx) (\<lambda>_. ret None)) s = map_ret (\<lambda>_. None) (With wclb s)"
    by (simp add: With_def WithE_def push_map_ret)
  from r1 r2 w1 w2 show ?thesis by blast
qed

text \<open>The test \<^verbatim>\<open>TestRWMtx\<close>: \<^verbatim>\<open>mtx.With(func(v *int) { *v = 100 })\<close>.\<close>

theorem With_is_WithE_of_wrapper_witness:
  "With (\<lambda>p. store p 100) guard_1 = Inr (Ret (), NewRWMtx 100 () ()) \<and>
   WithE (\<lambda>tx. bnd (store tx 100) (\<lambda>_. ret (None :: string option))) guard_1
     = Inr (Ret None, NewRWMtx 100 () ())"
proof -
  have run: "With (\<lambda>p. store p 100) guard_1 = Inr (Ret (), NewRWMtx 100 () ())"
    by (simp add: With_def WithE_def guard_1_def NewRWMtx_def go_defs)
  have "WithE (\<lambda>tx. bnd (store tx 100) (\<lambda>_. ret (None :: string option))) guard_1
          = map_ret (\<lambda>_. None) (With (\<lambda>p. store p 100) guard_1)"
    by (rule With_is_WithE_of_wrapper [THEN conjunct2, THEN conjunct2, THEN conjunct2])
  with run show ?thesis by simp
qed

subsection \<open>Calls of goroutines, one at a time\<close>

lemma seq_rstmt:
  "i < length (vars w) \<Longrightarrow>
   seq (map (rstmt i x) fs) w =
     Inr (Ret (), w\<lparr>vars := (vars w)[i := rfold fs (x, heap w) (vars w ! i)]\<rparr>)"
proof (induction fs arbitrary: w)
  case Nil
  then show ?case by (simp add: ret_def rfold_def)
next
  case (Cons f fs)
  let ?w1 = "w\<lparr>vars := (vars w)[i := f (x, heap w) (vars w ! i)]\<rparr>"
  have "i < length (vars ?w1)" using Cons.prems by simp
  from Cons.IH [OF this] Cons.prems show ?case
    by (simp add: bnd_def rstmt_def ret_def rfold_def)
qed

lemma seq_wstmt:
  "i < length (vars w) \<Longrightarrow>
   seq (map (wstmt i addr_v) fs) w =
     Inr (Ret (), w\<lparr>v := fst (fst (wfold fs ((v w, heap w), vars w ! i))),
                    heap := snd (fst (wfold fs ((v w, heap w), vars w ! i))),
                    vars := (vars w)[i := snd (wfold fs ((v w, heap w), vars w ! i))]\<rparr>)"
proof (induction fs arbitrary: w)
  case Nil
  then show ?case by (simp add: ret_def)
next
  case (Cons f fs)
  obtain x h l where f: "f (v w, heap w) (vars w ! i) = ((x, h), l)"
    by (metis surj_pair)
  let ?w1 = "w\<lparr>v := x, heap := h, vars := (vars w)[i := l]\<rparr>"
  have "i < length (vars ?w1)" using Cons.prems by simp
  from Cons.IH [OF this] Cons.prems f show ?case
    by (simp add: bnd_def wstmt_def ret_def addr_v_def)
qed

lemma call_read:
  assumes "unlocked w" "i < length (vars w)"
  shows "call i (ReadOp fs) w =
           Inr (Ret (), w\<lparr>vars := (vars w)[i := rfold fs (v w, heap w) (vars w ! i)]\<rparr>)"
proof -
  let ?wl = "w\<lparr>RWMutex := (RWMutex w)\<lparr>readers := Suc (readers (RWMutex w))\<rparr>\<rparr>"
  have "i < length (vars ?wl)" using assms by simp
  from seq_rstmt [OF this, of "v w" fs] assms(1) show ?thesis
    by (simp add: RWith_def RWithE_def go_defs unlocked_def)
qed

lemma call_write:
  assumes "unlocked w" "i < length (vars w)"
  shows "call i (WriteOp fs) w =
           Inr (Ret (), w\<lparr>v := fst (fst (wfold fs ((v w, heap w), vars w ! i))),
                          heap := snd (fst (wfold fs ((v w, heap w), vars w ! i))),
                          vars := (vars w)[i := snd (wfold fs ((v w, heap w), vars w ! i))]\<rparr>)"
proof -
  let ?wl = "w\<lparr>RWMutex := (RWMutex w)\<lparr>writer := True\<rparr>\<rparr>"
  have "i < length (vars ?wl)" using assms by simp
  from seq_wstmt [OF this, of fs] assms(1) show ?thesis
    by (simp add: With_def WithE_def go_defs unlocked_def)
qed

text \<open>
  The calls of goroutines are the public operations: \<^verbatim>\<open>Get\<close>, \<^verbatim>\<open>Set\<close>, and on the
  map guard \<^verbatim>\<open>Load\<close> and \<^verbatim>\<open>Delete\<close> of a hashable key, with what they return left
  in the goroutine's variable.
\<close>

lemma Get_as_call:
  assumes "unlocked w" "i < length (vars w)"
  shows "\<exists>x w1. Get w = Inr (Ret x, w1) \<and>
           call i Get_op w = Inr (Ret (), w1\<lparr>vars := (vars w)[i := x]\<rparr>)"
  unfolding Get_op_def using assms
  by (subst call_read [OF assms]) (simp add: Get_def go_defs unlocked_def rfold_def)

lemma Set_as_call:
  assumes "unlocked w" "i < length (vars w)"
  shows "call i (Set_op x) w = Set x w"
  unfolding Set_op_def using assms
  by (subst call_write [OF assms]) (simp add: Set_def go_defs unlocked_def)

lemma Load_as_call:
  assumes "unlocked w" "i < length (vars w)" "hashable ks k"
  shows "\<exists>r w1. Load ks z k w = Inr (Ret r, w1) \<and>
           call i (Load_op ks z k) w = Inr (Ret (), w1\<lparr>vars := (vars w)[i := r]\<rparr>)"
  unfolding Load_op_def using assms
  by (subst call_read [OF assms(1,2)])
    (simp add: Load_def RWith_def RWithE_def go_defs map_index_def unlocked_def rfold_def)

lemma Delete_as_call:
  assumes "unlocked w" "i < length (vars w)" "hashable ks k"
  shows "call i (Delete_op ks k) w = Delete ks k w"
  unfolding Delete_op_def using assms
  by (subst call_write [OF assms(1,2)])
    (simp add: Delete_def With_def WithE_def go_defs map_delete_def unlocked_def)

subsection \<open>Interleaved steps against whole calls\<close>




lemma reading_simps [simp]:
  "reading (Idle, ops) = False" "reading (Reading fs, ops) = True" "reading (Writing ws, ops) = False"
  by (simp_all add: reading_def)

lemma writing_simps [simp]:
  "writing (Idle, ops) = False" "writing (Reading fs, ops) = False" "writing (Writing ws, ops) = True"
  by (simp_all add: writing_def)
























subsection \<open>Linearizability\<close>



subsection \<open>The map guard\<close>






text \<open>
  What one critical section buys: were the read and the removal two calls, \<^verbatim>\<open>Load(k)\<close>
  and then \<^verbatim>\<open>Delete(k)\<close>, two goroutines could both read before either deletes, and
  both get \<open>(2, true)\<close>.
\<close>

lemma Load_then_Delete_two_winners:
  "interleave [0, 0, 0, 1, 1, 1, 0, 0, 0, 1, 1, 1]
       (map_b2_shared,
        [(Idle, [Load_op string_keys 0 ''b'', Delete_op string_keys ''b'']),
         (Idle, [Load_op string_keys 0 ''b'', Delete_op string_keys ''b''])])
     = Some ((map_b2_shared\<lparr>vars := [(2, True), (2, True)], heap := [[]]\<rparr>,
              [(Idle, []), (Idle, [])]), [0, 1, 0, 1])"
  by (simp add: go_step_def settle_def map_b2_shared_def Load_op_def Delete_op_def rstmt_def
      wstmt_def go_defs map_lookup_def map_erase_def find_entry_def drop_entry_def string_keys_def)

lemma wf_map_table:
  "wf_map s \<Longrightarrow> wf_map (s\<lparr>heap := (heap s)[a := tbl]\<rparr>)"
  by (simp add: wf_map_def split: option.splits)

lemma map_len_put:
  "a < length h \<Longrightarrow> \<not> self_equal ks k \<Longrightarrow>
   map_len (h[a := put_entry ks k x (h ! a)]) (Some a) = map_len h (Some a) + 1"
  by (simp add: map_len_def put_entry_def)

text \<open>
  C4, as the code has it. On a map guard whose lock is free and whose map is not
  \<^verbatim>\<open>nil\<close> (\<^verbatim>\<open>NewRWMtxMap\<close> makes it so), for a key \<open>k\<close> that can be hashed and equals
  itself, \<^verbatim>\<open>Store(k, x)\<close> inserts or overwrites and a following \<^verbatim>\<open>Load(k)\<close> returns
  \<open>(x, true)\<close>. Under a key that can be hashed and differs from itself, a NaN,
  \<^verbatim>\<open>Store\<close> adds an entry that no lookup finds: the map is one entry longer and
  \<^verbatim>\<open>Load(k)\<close> returns the zero value and \<open>false\<close>. On a \<^verbatim>\<open>nil\<close> map \<^verbatim>\<open>Store\<close>
  panics and changes nothing. On every map guard whose lock is free, for a key that can
  be hashed, \<^verbatim>\<open>Delete(k)\<close> removes what a lookup of \<open>k\<close> finds and a following
  \<^verbatim>\<open>Load(k)\<close> returns the zero value and \<open>false\<close>; when \<open>k\<close> is absent \<^verbatim>\<open>Delete(k)\<close>
  changes nothing and \<^verbatim>\<open>Load(k)\<close> returns the zero value and \<open>false\<close>, as a value
  and not as a panic. A key that cannot be hashed makes \<^verbatim>\<open>Load\<close> and \<^verbatim>\<open>Delete\<close>
  panic, and \<^verbatim>\<open>Store\<close> too, with the panic of the \<^verbatim>\<open>nil\<close> map first; nothing is
  changed.
\<close>

theorem Store_Delete_Load_roundtrip:
  assumes "unlocked s" "wf_map s"
  shows "(v s \<noteq> None \<and> hashable ks k \<and> self_equal ks k \<longrightarrow>
           (\<exists>s'. Store ks k x s = Inr (Ret (), s') \<and> entries ks s' = (entries ks s)(k \<mapsto> x) \<and>
                 unlocked s' \<and> wf_map s' \<and> v s' = v s \<and>
                 Load ks z k s' = Inr (Ret (x, True), s')))
       \<and> (v s \<noteq> None \<and> hashable ks k \<and> \<not> self_equal ks k \<longrightarrow>
           (\<exists>s'. Store ks k x s = Inr (Ret (), s') \<and> entries ks s' = entries ks s \<and>
                 unlocked s' \<and> wf_map s' \<and> v s' = v s \<and>
                 map_len (heap s') (v s') = map_len (heap s) (v s) + 1 \<and>
                 Load ks z k s' = Inr (Ret (z, False), s')))
       \<and> (v s = None \<longrightarrow> Store ks k x s = Inr (Panic NilMapAssignment, s))
       \<and> (hashable ks k \<longrightarrow>
           (\<exists>s'. Delete ks k s = Inr (Ret (), s') \<and> entries ks s' = (entries ks s)(k := None) \<and>
                 unlocked s' \<and> wf_map s' \<and> v s' = v s \<and>
                 Load ks z k s' = Inr (Ret (z, False), s')))
       \<and> (hashable ks k \<and> entries ks s k = None \<longrightarrow>
            Load ks z k s = Inr (Ret (z, False), s) \<and> Delete ks k s = Inr (Ret (), s))
       \<and> (\<not> hashable ks k \<longrightarrow>
            Load ks z k s = Inr (Panic UnhashableKey, s) \<and>
            Delete ks k s = Inr (Panic UnhashableKey, s) \<and>
            (v s \<noteq> None \<longrightarrow> Store ks k x s = Inr (Panic UnhashableKey, s)))"
proof -
  have found: "Load ks z k t = Inr (Ret (y, True), t)"
    if "unlocked t" "hashable ks k" "entries ks t k = Some y" for t y
    using that Load_eq [OF that(1), of ks z k] by (simp add: lookup_entries)
  have missed: "Load ks z k t = Inr (Ret (z, False), t)"
    if "unlocked t" "hashable ks k" "entries ks t k = None" for t
    using that Load_eq [OF that(1), of ks z k] by (simp add: lookup_entries)
  have stored: "\<exists>s'. Store ks k x s = Inr (Ret (), s') \<and> entries ks s' = (entries ks s)(k \<mapsto> x) \<and>
                 unlocked s' \<and> wf_map s' \<and> v s' = v s \<and>
                 Load ks z k s' = Inr (Ret (x, True), s')"
    if n: "v s \<noteq> None" and h: "hashable ks k" and e: "self_equal ks k"
  proof -
    from n obtain a where a: "v s = Some a" by auto
    let ?s' = "s\<lparr>heap := (heap s)[a := put_entry ks k x (heap s ! a)]\<rparr>"
    have st: "Store ks k x s = Inr (Ret (), ?s')"
      using assms(1) a h by (simp add: Store_eq)
    have en: "entries ks ?s' = (entries ks s)(k \<mapsto> x)"
      using entries_heap [OF assms(2) a, of ks] entries_at [OF a, of ks] e by (simp add: find_put)
    have u: "unlocked ?s'" using assms(1) by simp
    have "Load ks z k ?s' = Inr (Ret (x, True), ?s')"
      using u h by (rule found) (simp add: en)
    with st en u wf_map_table [OF assms(2)] show ?thesis by auto
  qed
  have added: "\<exists>s'. Store ks k x s = Inr (Ret (), s') \<and> entries ks s' = entries ks s \<and>
                 unlocked s' \<and> wf_map s' \<and> v s' = v s \<and>
                 map_len (heap s') (v s') = map_len (heap s) (v s) + 1 \<and>
                 Load ks z k s' = Inr (Ret (z, False), s')"
    if n: "v s \<noteq> None" and h: "hashable ks k" and e: "\<not> self_equal ks k"
  proof -
    from n obtain a where a: "v s = Some a" by auto
    with assms(2) have al: "a < length (heap s)" by (simp add: wf_map_def)
    let ?s' = "s\<lparr>heap := (heap s)[a := put_entry ks k x (heap s ! a)]\<rparr>"
    have st: "Store ks k x s = Inr (Ret (), ?s')"
      using assms(1) a h by (simp add: Store_eq)
    have en: "entries ks ?s' = entries ks s"
      using entries_heap [OF assms(2) a, of ks] entries_at [OF a, of ks] e by (simp add: find_put)
    have u: "unlocked ?s'" using assms(1) by simp
    have "entries ks ?s' k = None"
      using a e by (simp add: en) (simp add: entries_def find_entry_def)
    with u h have "Load ks z k ?s' = Inr (Ret (z, False), ?s')" by (rule missed)
    moreover have "map_len (heap ?s') (v ?s') = map_len (heap s) (v s) + 1"
      using a map_len_put [OF al e, of x] by simp
    ultimately show ?thesis using st en u wf_map_table [OF assms(2)] by auto
  qed
  have nil: "Store ks k x s = Inr (Panic NilMapAssignment, s)" if "v s = None"
    using assms(1) that by (simp add: Store_eq)
  have deleted: "\<exists>s'. Delete ks k s = Inr (Ret (), s') \<and> entries ks s' = (entries ks s)(k := None) \<and>
                 unlocked s' \<and> wf_map s' \<and> v s' = v s \<and>
                 Load ks z k s' = Inr (Ret (z, False), s')"
    if h: "hashable ks k"
  proof -
    let ?s' = "s\<lparr>heap := map_erase ks (heap s) (v s) k\<rparr>"
    have de: "Delete ks k s = Inr (Ret (), ?s')"
      using assms(1) h by (simp add: Delete_eq)
    have en: "entries ks ?s' = (entries ks s)(k := None)"
      using assms(2) by (rule entries_erase)
    have u: "unlocked ?s'" using assms(1) by simp
    have w: "wf_map ?s'"
      using assms(2) by (rule wf_map_heap) (rule length_erase)
    have "Load ks z k ?s' = Inr (Ret (z, False), ?s')"
      using u h by (rule missed) (simp add: en)
    with de en u w show ?thesis by auto
  qed
  have absent: "Load ks z k s = Inr (Ret (z, False), s) \<and> Delete ks k s = Inr (Ret (), s)"
    if h: "hashable ks k" and e: "entries ks s k = None"
    using missed [OF assms(1) h e] assms(1) h erase_absent [OF e] by (simp add: Delete_eq)
  have panics: "Load ks z k s = Inr (Panic UnhashableKey, s) \<and>
            Delete ks k s = Inr (Panic UnhashableKey, s) \<and>
            (v s \<noteq> None \<longrightarrow> Store ks k x s = Inr (Panic UnhashableKey, s))"
    if "\<not> hashable ks k"
    using assms(1) that by (auto simp add: Load_eq Delete_eq Store_eq)
  from stored added nil deleted absent panics show ?thesis by blast
qed

text \<open>
  The test \<^verbatim>\<open>TestRWMtxMap\<close> on \<^verbatim>\<open>NewRWMtxMap[string, int]()\<close>: \<^verbatim>\<open>Store("a", 1)\<close>
  then \<^verbatim>\<open>Load("a")\<close>, and \<^verbatim>\<open>Delete("a")\<close> then \<^verbatim>\<open>Load("a")\<close>. And on
  \<^verbatim>\<open>NewRWMtxMap[any, int]()\<close>: \<^verbatim>\<open>Store(math.NaN(), 1)\<close> then \<^verbatim>\<open>Load(math.NaN())\<close>,
  and \<^verbatim>\<open>Load([]int{})\<close>.
\<close>

theorem Store_Delete_Load_roundtrip_witness:
  "unlocked (NewRWMtxMap () [] :: (mapref, unit, (string \<times> int) list list) world) \<and>
   wf_map (NewRWMtxMap () [] :: (mapref, unit, (string \<times> int) list list) world) \<and>
   v (NewRWMtxMap () [] :: (mapref, unit, (string \<times> int) list list) world) \<noteq> None \<and>
   hashable string_keys ''a'' \<and> self_equal string_keys ''a'' \<and>
   (\<exists>s'. Store string_keys ''a'' 1
            (NewRWMtxMap () [] :: (mapref, unit, (string \<times> int) list list) world)
            = Inr (Ret (), s') \<and>
         Load string_keys 0 ''a'' s' = Inr (Ret (1, True), s') \<and>
         (\<exists>s''. Delete string_keys ''a'' s' = Inr (Ret (), s'') \<and>
                Load string_keys 0 ''a'' s'' = Inr (Ret (0, False), s''))) \<and>
   unlocked any_map_guard \<and> wf_map any_map_guard \<and> v any_map_guard \<noteq> None \<and>
   hashable any_keys KNaN \<and> \<not> self_equal any_keys KNaN \<and>
   (\<exists>s'. Store any_keys KNaN 1 any_map_guard = Inr (Ret (), s') \<and>
         map_len (heap s') (v s') = 1 \<and>
         Load any_keys 0 KNaN s' = Inr (Ret (0, False), s')) \<and>
   \<not> hashable any_keys (KSlice []) \<and>
   Load any_keys 0 (KSlice []) any_map_guard = Inr (Panic UnhashableKey, any_map_guard) \<and>
   unlocked zero_map_guard \<and> wf_map zero_map_guard \<and> v zero_map_guard = None \<and>
   Store string_keys ''a'' 1 zero_map_guard = Inr (Panic NilMapAssignment, zero_map_guard)"
proof -
  let ?m = "NewRWMtxMap () [] :: (mapref, unit, (string \<times> int) list list) world"
  have u: "unlocked ?m" and w: "wf_map ?m" and n: "v ?m \<noteq> None"
    by (simp_all add: NewRWMtxMap_def NewRWMtx_def wf_map_def unlocked_def)
  have h: "hashable string_keys ''a''" and e: "self_equal string_keys ''a''"
    by (simp_all add: string_keys_def)
  from Store_Delete_Load_roundtrip [OF u w, of string_keys "''a''" 1 0] n h e
  obtain s' where s': "Store string_keys ''a'' 1 ?m = Inr (Ret (), s')" "unlocked s'" "wf_map s'"
    "Load string_keys 0 ''a'' s' = Inr (Ret (1, True), s')"
    by blast
  from Store_Delete_Load_roundtrip [OF s'(2) s'(3), of string_keys "''a''" 1 0] h
  obtain s'' where "Delete string_keys ''a'' s' = Inr (Ret (), s'')"
    "Load string_keys 0 ''a'' s'' = Inr (Ret (0, False), s'')"
    by blast
  with s' have first: "\<exists>s'. Store string_keys ''a'' 1 ?m = Inr (Ret (), s') \<and>
         Load string_keys 0 ''a'' s' = Inr (Ret (1, True), s') \<and>
         (\<exists>s''. Delete string_keys ''a'' s' = Inr (Ret (), s'') \<and>
                Load string_keys 0 ''a'' s'' = Inr (Ret (0, False), s''))"
    by blast
  have ua: "unlocked any_map_guard" and wa: "wf_map any_map_guard"
    and na: "v any_map_guard \<noteq> None" and la: "map_len (heap any_map_guard) (v any_map_guard) = 0"
    by (simp_all add: any_map_guard_def NewRWMtxMap_def NewRWMtx_def wf_map_def unlocked_def
        map_len_def)
  have hn: "hashable any_keys KNaN" and en: "\<not> self_equal any_keys KNaN"
    and hs: "\<not> hashable any_keys (KSlice [])"
    by (simp_all add: any_keys_def)
  from Store_Delete_Load_roundtrip [OF ua wa, of any_keys KNaN 1 0] na hn en la
  have nan: "\<exists>s'. Store any_keys KNaN 1 any_map_guard = Inr (Ret (), s') \<and>
         map_len (heap s') (v s') = 1 \<and>
         Load any_keys 0 KNaN s' = Inr (Ret (0, False), s')"
    by auto
  from Store_Delete_Load_roundtrip [OF ua wa, of any_keys "KSlice []" 1 0] hs
  have unh: "Load any_keys 0 (KSlice []) any_map_guard = Inr (Panic UnhashableKey, any_map_guard)"
    by blast
  have uz: "unlocked zero_map_guard" and wz: "wf_map zero_map_guard"
    and nz: "v zero_map_guard = None"
    by (simp_all add: zero_map_guard_def NewRWMtx_def wf_map_def unlocked_def)
  from Store_Delete_Load_roundtrip [OF uz wz, of string_keys "''a''" 1 0] nz
  have nil: "Store string_keys ''a'' 1 zero_map_guard
               = Inr (Panic NilMapAssignment, zero_map_guard)"
    by blast
  from u w n h e first ua wa na hn en nan hs unh uz wz nz nil show ?thesis
    by (intro conjI)
qed

text \<open>
  C4 as the spec words it, for every map guard and key, fails on the zero value of
  \<^verbatim>\<open>RWMtxMap[string, int]\<close>, whose map is \<^verbatim>\<open>nil\<close>: \<^verbatim>\<open>Store("a", 1)\<close> panics, and
  \<^verbatim>\<open>Load("a")\<close> still finds nothing. It fails on \<^verbatim>\<open>NewRWMtxMap[any, int]()\<close> too:
  after \<^verbatim>\<open>Store(math.NaN(), 1)\<close>, \<^verbatim>\<open>Load(math.NaN())\<close> returns \<open>(0, false)\<close>, and
  \<^verbatim>\<open>Load([]int{1})\<close> of that absent key panics.
\<close>

theorem Store_on_nil_map_counterexample:
  "Store string_keys ''a'' 1 zero_map_guard = Inr (Panic NilMapAssignment, zero_map_guard) \<and>
   Load string_keys 0 ''a'' zero_map_guard = Inr (Ret (0, False), zero_map_guard) \<and>
   bnd (Store any_keys KNaN 1) (\<lambda>_. Load any_keys 0 KNaN) any_map_guard
     = Inr (Ret (0, False), any_map_guard\<lparr>heap := [[(KNaN, 1)]]\<rparr>) \<and>
   Load any_keys 0 (KSlice [1]) any_map_guard = Inr (Panic UnhashableKey, any_map_guard)"
  by (simp add: zero_map_guard_def any_map_guard_def NewRWMtxMap_def NewRWMtx_def unlocked_def
      Store_eq Load_eq bnd_def find_entry_def put_entry_def map_lookup_def any_keys_def
      string_keys_def)

subsection \<open>Windows on arrays\<close>

lemma length_elems: "wf_slice h sl \<Longrightarrow> length (elems h sl) = len sl"
  by (auto simp add: wf_slice_def elems_def split: option.splits)

lemma elems_alloc: "wf_slice h sl \<Longrightarrow> elems (h @ hs) sl = elems h sl"
  by (auto simp add: wf_slice_def elems_def nth_append split: option.splits)

lemma elems_empty_iff: "wf_slice h sl \<Longrightarrow> (elems h sl = []) = (len sl = 0)"
  using length_elems [of h sl] by auto

lemma elems_len0: "len sl = 0 \<Longrightarrow> elems h sl = []"
  by (simp add: elems_def split: option.splits)

lemma elems_fresh:
  "elems (h @ [xs]) \<lparr>base = Some (length h), off = 0, len = n, cap = c\<rparr> = take n xs"
  by (simp add: elems_def)

lemma overwrite_all: "length ys = length xs \<Longrightarrow> overwrite 0 ys xs = ys"
  by (simp add: overwrite_def)

lemma overwrite_end: "length xs = n \<Longrightarrow> overwrite n [] xs = xs"
  by (simp add: overwrite_def)

lemma length_overwrite: "n + length ys \<le> length xs \<Longrightarrow> length (overwrite n ys xs) = length xs"
  by (simp add: overwrite_def)

lemma nth_overwrite:
  "n + length ys \<le> length xs \<Longrightarrow> j < length xs \<Longrightarrow>
   overwrite n ys xs ! j = (if n \<le> j \<and> j < n + length ys then ys ! (j - n) else xs ! j)"
  by (auto simp add: overwrite_def nth_append)

lemma window_append:
  assumes "n + l + length ys \<le> length xs"
  shows "take (l + length ys) (drop n (overwrite (n + l) ys xs)) = take l (drop n xs) @ ys"
proof (rule nth_equalityI)
  show "length (take (l + length ys) (drop n (overwrite (n + l) ys xs)))
        = length (take l (drop n xs) @ ys)"
    using assms by (simp add: length_overwrite)
next
  fix j assume "j < length (take (l + length ys) (drop n (overwrite (n + l) ys xs)))"
  then have j: "j < l + length ys" by simp
  show "take (l + length ys) (drop n (overwrite (n + l) ys xs)) ! j = (take l (drop n xs) @ ys) ! j"
    using assms j by (auto simp add: length_overwrite nth_overwrite nth_append)
qed

lemma window_remove:
  assumes "n + l \<le> length xs" "i < l"
  shows "take (l - 1) (drop n (overwrite (n + i) (take (l - i - 1) (drop (n + i + 1) xs)) xs))
         = take i (take l (drop n xs)) @ drop (Suc i) (take l (drop n xs))"
proof (rule nth_equalityI)
  show "length (take (l - 1) (drop n (overwrite (n + i) (take (l - i - 1) (drop (n + i + 1) xs)) xs)))
        = length (take i (take l (drop n xs)) @ drop (Suc i) (take l (drop n xs)))"
    using assms by (simp add: length_overwrite)
next
  fix j
  assume "j < length (take (l - 1) (drop n (overwrite (n + i) (take (l - i - 1) (drop (n + i + 1) xs)) xs)))"
  then have j: "j < l - 1" by simp
  show "take (l - 1) (drop n (overwrite (n + i) (take (l - i - 1) (drop (n + i + 1) xs)) xs)) ! j
        = (take i (take l (drop n xs)) @ drop (Suc i) (take l (drop n xs))) ! j"
    using assms j
    by (auto simp add: length_overwrite nth_overwrite nth_append add.commute add.left_commute)
qed

lemma window_update:
  assumes "n + l \<le> length xs" "i < l"
  shows "take l (drop n (xs[n + i := x])) = (take l (drop n xs))[i := x]"
  using assms by (simp add: drop_update_swap take_update_swap)

lemma remove_nth_before: "j < i \<Longrightarrow> i < length xs \<Longrightarrow> (take i xs @ drop (Suc i) xs) ! j = xs ! j"
  by (simp add: nth_append)

lemma remove_nth_after:
  "i \<le> j \<Longrightarrow> Suc j < length xs \<Longrightarrow> (take i xs @ drop (Suc i) xs) ! j = xs ! Suc j"
  by (simp add: nth_append min_def)

subsection \<open>The slice guard, call by call\<close>

lemma Append_eq:
  "unlocked s \<Longrightarrow>
   Append slack z els s =
     Inr (Ret (),
       (if len (v s) + length els \<le> cap (v s) then
          (case base (v s) of
             None \<Rightarrow> s
           | Some a \<Rightarrow>
               s\<lparr>v := (v s)\<lparr>len := len (v s) + length els\<rparr>,
                 heap := (heap s)[a := overwrite (off (v s) + len (v s)) els (heap s ! a)]\<rparr>)
        else
          s\<lparr>v := \<lparr>base = Some (length (heap s)), off = 0, len = len (v s) + length els,
                  cap = len (v s) + length els + slack (cap (v s)) (len (v s) + length els)\<rparr>,
            heap := heap s @ [elems (heap s) (v s) @ els @
                       replicate (slack (cap (v s)) (len (v s) + length els)) z]\<rparr>))"
  by (simp add: Append_def With_def WithE_def go_defs append_slice_def unlocked_def Let_def
      split: option.splits)

lemma Unshift_eq:
  "unlocked s \<Longrightarrow> wf_slice (heap s) (v s) \<Longrightarrow>
   Unshift slack z el s =
     Inr (Ret (),
       (if len (v s) = 0 then
          s\<lparr>v := \<lparr>base = Some (length (heap s)), off = 0, len = 1, cap = 1\<rparr>,
            heap := heap s @ [[el]]\<rparr>
        else
          s\<lparr>v := \<lparr>base = Some (Suc (length (heap s))), off = 0, len = Suc (len (v s)),
                  cap = Suc (len (v s)) + slack 1 (Suc (len (v s)))\<rparr>,
            heap := heap s @ [[el], el # elems (heap s) (v s) @
                                replicate (slack 1 (Suc (len (v s)))) z]\<rparr>))"
  by (simp add: Unshift_def With_def WithE_def go_defs append_slice_def slice_lit_def
      unlocked_def Let_def length_elems elems_alloc overwrite_end elems_empty_iff elems_len0
      elems_fresh)

lemma Clear_eq:
  "unlocked s \<Longrightarrow>
   Clear z s =
     Inr (Ret (), s\<lparr>v := \<lparr>base = Some (length (heap s)), off = 0, len = 0, cap = 0\<rparr>,
                    heap := heap s @ [[]]\<rparr>)"
  by (simp add: Clear_def With_def WithE_def go_defs make_slice_def unlocked_def)

lemma Remove_panics:
  "unlocked s \<Longrightarrow> i < 0 \<or> int (len (v s)) \<le> i \<Longrightarrow>
   Remove z i s = Inr (Panic IndexOutOfRange, s)"
  by (auto simp add: Remove_def With_def WithE_def go_defs index_slice_def unlocked_def)

lemma Remove_eq:
  "unlocked s \<Longrightarrow> 0 \<le> i \<Longrightarrow> i < int (len (v s)) \<Longrightarrow> len (v s) \<le> cap (v s) \<Longrightarrow>
   base (v s) = Some a \<Longrightarrow>
   Remove z i s =
     Inr (Ret (elems (heap s) (v s) ! nat i),
          s\<lparr>v := (v s)\<lparr>len := len (v s) - 1\<rparr>,
            heap := (heap s)[a := overwrite (off (v s) + nat i)
                       (take (len (v s) - nat i - 1) (drop (off (v s) + nat i + 1) (heap s ! a)))
                       (heap s ! a)]\<rparr>)"
  by (simp add: Remove_def With_def WithE_def go_defs index_slice_def slice_from_def slice_to_def
      copy_slice_def unlocked_def Let_def elems_def nat_add_distrib nat_diff_distrib)

lemma Clone_eq:
  "unlocked s \<Longrightarrow> wf_slice (heap s) (v s) \<Longrightarrow>
   Clone z s =
     Inr (Ret \<lparr>base = Some (length (heap s)), off = 0, len = len (v s), cap = len (v s)\<rparr>,
          s\<lparr>heap := heap s @ [elems (heap s) (v s)]\<rparr>)"
  by (simp add: Clone_def RWith_def RWithE_def go_defs make_slice_def copy_slice_def unlocked_def
      Let_def elems_alloc length_elems overwrite_all)

subsection \<open>What each call does to the guarded sequence\<close>

lemma Append_effect:
  assumes "unlocked s" "wf_slice (heap s) (v s)"
  shows "\<exists>s'. Append slack z els s = Inr (Ret (), s') \<and>
              elems (heap s') (v s') = elems (heap s) (v s) @ els \<and> guard_step s s'"
proof (cases "len (v s) + length els \<le> cap (v s)")
  case fits: True
  show ?thesis
  proof (cases "base (v s)")
    case None
    with assms fits have "els = []" "elems (heap s) (v s) = []"
      by (simp_all add: wf_slice_def elems_def)
    with assms fits None show ?thesis
      by (simp add: Append_eq guard_step_def)
  next
    case (Some a)
    with assms have a: "a < length (heap s)" "off (v s) + cap (v s) \<le> length (heap s ! a)"
      by (simp_all add: wf_slice_def)
    have "take (len (v s) + length els)
            (drop (off (v s)) (overwrite (off (v s) + len (v s)) els (heap s ! a)))
          = take (len (v s)) (drop (off (v s)) (heap s ! a)) @ els"
      using a fits by (intro window_append) simp
    with assms fits Some a show ?thesis
      by (simp add: Append_eq guard_step_def elems_def wf_slice_def length_overwrite)
  qed
next
  case False
  with assms show ?thesis
    by (simp add: Append_eq guard_step_def elems_fresh wf_slice_def length_elems nth_append)
qed

lemma Unshift_effect:
  assumes "unlocked s" "wf_slice (heap s) (v s)"
  shows "\<exists>s'. Unshift slack z el s = Inr (Ret (), s') \<and>
              elems (heap s') (v s') = el # elems (heap s) (v s) \<and> guard_step s s'"
proof (cases "len (v s) = 0")
  case True
  with assms show ?thesis
    by (simp add: Unshift_eq guard_step_def elems_fresh wf_slice_def elems_len0 nth_append)
next
  case False
  have "elems ((heap s @ [[el]]) @ [el # elems (heap s) (v s) @ replicate k z])
          \<lparr>base = Some (length (heap s @ [[el]])), off = 0, len = Suc (len (v s)), cap = c\<rparr>
        = el # elems (heap s) (v s)" for k c
    using assms by (simp only: elems_fresh) (simp add: length_elems)
  with assms False show ?thesis
    by (simp add: Unshift_eq guard_step_def wf_slice_def length_elems nth_append)
qed

lemma Clear_effect:
  assumes "unlocked s" "wf_slice (heap s) (v s)"
  shows "\<exists>s'. Clear z s = Inr (Ret (), s') \<and> elems (heap s') (v s') = [] \<and> guard_step s s'"
  using assms by (simp add: Clear_eq guard_step_def wf_slice_def elems_len0 nth_append)

lemma Remove_effect:
  assumes "unlocked s" "wf_slice (heap s) (v s)" "0 \<le> i" "i < int (len (v s))"
  shows "\<exists>s'. Remove z i s = Inr (Ret (elems (heap s) (v s) ! nat i), s') \<and>
              elems (heap s') (v s') =
                take (nat i) (elems (heap s) (v s)) @ drop (Suc (nat i)) (elems (heap s) (v s)) \<and>
              guard_step s s'"
proof -
  from assms obtain a where a: "base (v s) = Some a"
    by (cases "base (v s)") (auto simp add: wf_slice_def)
  with assms have w: "a < length (heap s)" "off (v s) + cap (v s) \<le> length (heap s ! a)"
    "len (v s) \<le> cap (v s)"
    by (simp_all add: wf_slice_def)
  have i: "nat i < len (v s)" using assms by simp
  have win: "take (len (v s) - 1) (drop (off (v s))
               (overwrite (off (v s) + nat i)
                  (take (len (v s) - nat i - 1) (drop (off (v s) + nat i + 1) (heap s ! a)))
                  (heap s ! a)))
             = take (nat i) (take (len (v s)) (drop (off (v s)) (heap s ! a))) @
               drop (Suc (nat i)) (take (len (v s)) (drop (off (v s)) (heap s ! a)))"
    using w i by (intro window_remove) simp_all
  have len: "length (overwrite (off (v s) + nat i)
                  (take (len (v s) - nat i - 1) (drop (off (v s) + nat i + 1) (heap s ! a)))
                  (heap s ! a))
             = length (heap s ! a)"
    using w i by (intro length_overwrite) simp
  show ?thesis
    using assms a w i win len
    by (simp add: Remove_eq [where a = a] guard_step_def elems_def wf_slice_def del: take_take)
qed

lemma Clone_effect:
  assumes "unlocked s" "wf_slice (heap s) (v s)"
  shows "\<exists>c s'. Clone z s = Inr (Ret c, s') \<and> indep c s' \<and> v s' = v s \<and>
                elems (heap s') c = elems (heap s) (v s) \<and>
                elems (heap s') (v s') = elems (heap s) (v s)"
proof -
  let ?c = "\<lparr>base = Some (length (heap s)), off = 0, len = len (v s), cap = len (v s)\<rparr>"
  let ?s' = "s\<lparr>heap := heap s @ [elems (heap s) (v s)]\<rparr>"
  have "Clone z s = Inr (Ret ?c, ?s')" using assms by (rule Clone_eq)
  moreover have "elems (heap ?s') ?c = elems (heap s) (v s)"
    using assms by (simp add: elems_fresh length_elems)
  moreover have "elems (heap ?s') (v ?s') = elems (heap s) (v s)"
    using assms by (simp add: elems_alloc)
  moreover have "indep ?c ?s'"
    using assms
    by (auto simp add: indep_def wf_slice_def length_elems nth_append split: option.splits)
  ultimately show ?thesis by auto
qed

lemma guard_step_keeps:
  "guard_step s s' \<Longrightarrow> unlocked s' \<and> wf_slice (heap s') (v s')"
  by (simp add: guard_step_def)

lemma indep_keeps:
  "indep c s \<Longrightarrow> unlocked s \<and> wf_slice (heap s) (v s) \<and> wf_slice (heap s) c"
  by (simp add: indep_def)

subsection \<open>The slice guard\<close>

text \<open>
  C5. On a slice guard whose lock is free, \<^verbatim>\<open>Remove(i)\<close> with \<open>i < 0\<close> or
  \<open>i \<ge> len\<close> panics with the runtime's index-out-of-range error: it returns no value,
  and there is no error value to inspect. The guarded slice and the heap are untouched
  and the deferred \<^verbatim>\<open>Unlock\<close> has released the lock.
\<close>

theorem Remove_out_of_bounds_panics:
  assumes "unlocked s" "i < 0 \<or> int (len (v s)) \<le> i"
  shows "Remove z i s = Inr (Panic IndexOutOfRange, s) \<and>
         returned (Remove z i s) = None"
  using Remove_panics [OF assms, of z] by (simp add: returned_def)

text \<open>The test \<^verbatim>\<open>TestRWMtxSlice_RemoveOutOfBounds\<close>: \<^verbatim>\<open>Remove(5)\<close> on \<open>[1, 2, 3]\<close>.\<close>

theorem Remove_out_of_bounds_panics_witness:
  "unlocked slice_123 \<and> int (len (v slice_123)) \<le> 5 \<and>
   Remove 0 5 slice_123 = Inr (Panic IndexOutOfRange, slice_123) \<and>
   Remove 0 (- 1) slice_123 = Inr (Panic IndexOutOfRange, slice_123)"
proof -
  have u: "unlocked slice_123"
    by (simp add: slice_123_def unlocked_def)
  have l: "int (len (v slice_123)) \<le> 5"
    by (simp add: slice_123_def)
  from Remove_out_of_bounds_panics [OF u, of 5 0] Remove_out_of_bounds_panics [OF u, of "- 1" 0] u l
  show ?thesis by simp
qed

text \<open>
  C6. On a slice guard whose lock is free and whose elements are \<open>xs\<close>, \<^verbatim>\<open>Remove(i)\<close>
  with \<open>0 \<le> i < length xs\<close> returns \<open>xs ! i\<close> and leaves the elements before \<open>i\<close>
  followed by those after \<open>i\<close>: one element fewer, those before position \<open>i\<close> where they
  were, those after it one position down.
\<close>

theorem Remove_in_bounds_shifts:
  assumes "unlocked s" "wf_slice (heap s) (v s)"
    and "0 \<le> i" "i < int (length (elems (heap s) (v s)))"
  shows "\<exists>s'. Remove z i s = Inr (Ret (elems (heap s) (v s) ! nat i), s') \<and>
           unlocked s' \<and> wf_slice (heap s') (v s') \<and>
           elems (heap s') (v s') =
             take (nat i) (elems (heap s) (v s)) @ drop (Suc (nat i)) (elems (heap s) (v s)) \<and>
           Suc (length (elems (heap s') (v s'))) = length (elems (heap s) (v s)) \<and>
           (\<forall>j<nat i. elems (heap s') (v s') ! j = elems (heap s) (v s) ! j) \<and>
           (\<forall>j. nat i \<le> j \<and> Suc j < length (elems (heap s) (v s)) \<longrightarrow>
                elems (heap s') (v s') ! j = elems (heap s) (v s) ! Suc j)"
proof -
  let ?xs = "elems (heap s) (v s)"
  have i: "i < int (len (v s))" "nat i < length ?xs"
    using assms by (simp_all add: length_elems)
  from Remove_effect [OF assms(1,2,3) i(1), of z] obtain s' where
    s': "Remove z i s = Inr (Ret (?xs ! nat i), s')"
        "elems (heap s') (v s') = take (nat i) ?xs @ drop (Suc (nat i)) ?xs"
        "guard_step s s'" by blast
  have n: "Suc (length (elems (heap s') (v s'))) = length ?xs"
    using s'(2) i(2) by simp
  have before: "\<forall>j<nat i. elems (heap s') (v s') ! j = ?xs ! j"
    using s'(2) i(2) by (simp add: remove_nth_before)
  have after: "\<forall>j. nat i \<le> j \<and> Suc j < length ?xs \<longrightarrow> elems (heap s') (v s') ! j = ?xs ! Suc j"
    using s'(2) by (simp add: remove_nth_after)
  from s' n before after guard_step_keeps [OF s'(3)] show ?thesis by blast
qed

text \<open>The test \<^verbatim>\<open>TestRWMtxSlice_Remove\<close>: \<^verbatim>\<open>Remove(1)\<close> on \<open>[1, 2, 3]\<close>.\<close>

theorem Remove_in_bounds_shifts_witness:
  "unlocked slice_123 \<and> wf_slice (heap slice_123) (v slice_123) \<and>
   elems (heap slice_123) (v slice_123) = [1, 2, 3] \<and>
   (\<exists>s'. Remove 0 1 slice_123 = Inr (Ret 2, s') \<and> elems (heap s') (v s') = [1, 3])"
proof -
  have u: "unlocked slice_123" and w: "wf_slice (heap slice_123) (v slice_123)"
    by (simp_all add: slice_123_def unlocked_def wf_slice_def)
  have e: "elems (heap slice_123) (v slice_123) = [1, 2, 3]"
    by (simp add: slice_123_def elems_def)
  have "(0::int) \<le> 1" "1 < int (length (elems (heap slice_123) (v slice_123)))"
    by (simp_all add: e)
  from Remove_in_bounds_shifts [OF u w this, of 0] obtain s' where
    "Remove 0 1 slice_123 = Inr (Ret (elems (heap slice_123) (v slice_123) ! nat 1), s')"
    "elems (heap s') (v s') =
       take (nat 1) (elems (heap slice_123) (v slice_123)) @
       drop (Suc (nat 1)) (elems (heap slice_123) (v slice_123))"
    by blast
  then have "Remove 0 1 slice_123 = Inr (Ret 2, s') \<and> elems (heap s') (v s') = [1, 3]"
    by (simp add: e)
  with u w e show ?thesis by blast
qed

text \<open>
  C7. On a slice guard whose lock is free and whose elements are \<open>xs\<close>,
  \<^verbatim>\<open>Append(els...)\<close> leaves \<open>xs\<close> followed by \<open>els\<close> in argument order, and
  \<^verbatim>\<open>Unshift(el)\<close> leaves \<open>el\<close> at index 0 followed by \<open>xs\<close>; a \<^verbatim>\<open>Clone()\<close> made next
  returns those elements and leaves the guard as it is.
\<close>

theorem Append_Unshift_order:
  assumes "unlocked s" "wf_slice (heap s) (v s)"
  shows "(\<exists>s' c t. Append slack z els s = Inr (Ret (), s') \<and>
            elems (heap s') (v s') = elems (heap s) (v s) @ els \<and>
            Clone z s' = Inr (Ret c, t) \<and>
            elems (heap t) c = elems (heap s) (v s) @ els \<and>
            elems (heap t) (v t) = elems (heap s) (v s) @ els \<and>
            unlocked t \<and> wf_slice (heap t) (v t))
       \<and> (\<exists>s' c t. Unshift slack z el s = Inr (Ret (), s') \<and>
            elems (heap s') (v s') = el # elems (heap s) (v s) \<and>
            Clone z s' = Inr (Ret c, t) \<and>
            elems (heap t) c = el # elems (heap s) (v s) \<and>
            elems (heap t) (v t) = el # elems (heap s) (v s) \<and>
            unlocked t \<and> wf_slice (heap t) (v t))"
proof -
  from Append_effect [OF assms, of slack z els] obtain s1 where
    s1: "Append slack z els s = Inr (Ret (), s1)"
        "elems (heap s1) (v s1) = elems (heap s) (v s) @ els" "guard_step s s1" by blast
  from guard_step_keeps [OF s1(3)] have k1: "unlocked s1" "wf_slice (heap s1) (v s1)"
    by simp_all
  from Clone_effect [OF k1, of z] obtain c1 t1 where
    c1: "Clone z s1 = Inr (Ret c1, t1)" "indep c1 t1"
        "elems (heap t1) c1 = elems (heap s1) (v s1)"
        "elems (heap t1) (v t1) = elems (heap s1) (v s1)" by blast
  have app: "\<exists>s' c t. Append slack z els s = Inr (Ret (), s') \<and>
            elems (heap s') (v s') = elems (heap s) (v s) @ els \<and>
            Clone z s' = Inr (Ret c, t) \<and>
            elems (heap t) c = elems (heap s) (v s) @ els \<and>
            elems (heap t) (v t) = elems (heap s) (v s) @ els \<and>
            unlocked t \<and> wf_slice (heap t) (v t)"
    using s1 c1 indep_keeps [OF c1(2)] by auto
  from Unshift_effect [OF assms, of slack z el] obtain s2 where
    s2: "Unshift slack z el s = Inr (Ret (), s2)"
        "elems (heap s2) (v s2) = el # elems (heap s) (v s)" "guard_step s s2" by blast
  from guard_step_keeps [OF s2(3)] have k2: "unlocked s2" "wf_slice (heap s2) (v s2)"
    by simp_all
  from Clone_effect [OF k2, of z] obtain c2 t2 where
    c2: "Clone z s2 = Inr (Ret c2, t2)" "indep c2 t2"
        "elems (heap t2) c2 = elems (heap s2) (v s2)"
        "elems (heap t2) (v t2) = elems (heap s2) (v s2)" by blast
  have uns: "\<exists>s' c t. Unshift slack z el s = Inr (Ret (), s') \<and>
            elems (heap s') (v s') = el # elems (heap s) (v s) \<and>
            Clone z s' = Inr (Ret c, t) \<and>
            elems (heap t) c = el # elems (heap s) (v s) \<and>
            elems (heap t) (v t) = el # elems (heap s) (v s) \<and>
            unlocked t \<and> wf_slice (heap t) (v t)"
    using s2 c2 indep_keeps [OF c2(2)] by auto
  from app uns show ?thesis ..
qed

text \<open>
  The spec's example, from the zero value of \<^verbatim>\<open>RWMtxSlice[int]\<close>: \<^verbatim>\<open>Append(1, 2, 3)\<close>
  then \<^verbatim>\<open>Clone()\<close> is \<open>[1, 2, 3]\<close>, and \<^verbatim>\<open>Unshift(0)\<close> then \<^verbatim>\<open>Clone()\<close> is
  \<open>[0, 1, 2, 3]\<close>.
\<close>

theorem Append_Unshift_order_witness:
  "unlocked zero_slice_guard \<and> wf_slice (heap zero_slice_guard) (v zero_slice_guard) \<and>
   (\<exists>s1 c1 t1. Append exact_fit 0 [1, 2, 3] zero_slice_guard = Inr (Ret (), s1) \<and>
      Clone 0 s1 = Inr (Ret c1, t1) \<and> elems (heap t1) c1 = [1, 2, 3] \<and>
      (\<exists>s2 c2 t2. Unshift exact_fit 0 0 t1 = Inr (Ret (), s2) \<and>
         Clone 0 s2 = Inr (Ret c2, t2) \<and> elems (heap t2) c2 = [0, 1, 2, 3]))"
proof -
  have u: "unlocked zero_slice_guard"
    and w: "wf_slice (heap zero_slice_guard) (v zero_slice_guard)"
    and e: "elems (heap zero_slice_guard) (v zero_slice_guard) = ([] :: int list)"
    by (simp_all add: zero_slice_guard_def NewRWMtx_def nil_slice_def unlocked_def wf_slice_def
        elems_def)
  from Append_Unshift_order [OF u w, of exact_fit 0 "[1, 2, 3]" 0] obtain s1 c1 t1 where
    a: "Append exact_fit 0 [1, 2, 3] zero_slice_guard = Inr (Ret (), s1)"
       "Clone 0 s1 = Inr (Ret c1, t1)"
       "elems (heap t1) c1 = elems (heap zero_slice_guard) (v zero_slice_guard) @ [1, 2, 3]"
       "elems (heap t1) (v t1) = elems (heap zero_slice_guard) (v zero_slice_guard) @ [1, 2, 3]"
       "unlocked t1" "wf_slice (heap t1) (v t1)"
    by blast
  from Append_Unshift_order [OF a(5,6), of exact_fit 0 "[]" 0] obtain s2 c2 t2 where
    b: "Unshift exact_fit 0 0 t1 = Inr (Ret (), s2)"
       "Clone 0 s2 = Inr (Ret c2, t2)"
       "elems (heap t2) c2 = 0 # elems (heap t1) (v t1)"
    by blast
  from a b e have "elems (heap t1) c1 = [1, 2, 3]" "elems (heap t2) c2 = [0, 1, 2, 3]"
    by simp_all
  with a b u w show ?thesis by blast
qed

subsection \<open>Copies and handles\<close>

lemma guard_step_indep:
  assumes "indep c s" "guard_step s s'"
  shows "indep c s' \<and> elems (heap s') c = elems (heap s) c"
proof -
  from assms(1) obtain b where b: "base c = Some b" "base (v s) \<noteq> Some b"
    "b < length (heap s)" "off c + cap c \<le> length (heap s ! b)" "len c \<le> cap c"
    by (auto simp add: indep_def wf_slice_def)
  from assms(2) b have same: "heap s' ! b = heap s ! b" and lt: "b < length (heap s')"
    by (auto simp add: guard_step_def)
  from assms(2) b have nb: "base (v s') \<noteq> Some b"
    by (auto simp add: guard_step_def)
  from assms(2) b same lt nb show ?thesis
    by (simp add: indep_def guard_step_def wf_slice_def elems_def)
qed

lemma assign_effect:
  assumes "indep c s"
  shows "\<exists>r s'. assign_slice c i x s = Inr (r, s') \<and> indep c s' \<and>
                elems (heap s') c = spec_copy (CopyAssign i x) (elems (heap s) c) \<and>
                elems (heap s') (v s') = elems (heap s) (v s)"
proof (cases "0 \<le> i \<and> i < int (len c)")
  case False
  with assms show ?thesis
    by (auto simp add: assign_slice_def raise_def indep_def length_elems)
next
  case True
  from assms obtain b where b: "base c = Some b" "base (v s) \<noteq> Some b"
    "b < length (heap s)" "off c + cap c \<le> length (heap s ! b)" "len c \<le> cap c"
    by (auto simp add: indep_def wf_slice_def)
  let ?s' = "s\<lparr>heap := (heap s)[b := (heap s ! b)[off c + nat i := x]]\<rparr>"
  have run: "assign_slice c i x s = Inr (Ret (), ?s')"
    using True b by (simp add: assign_slice_def ret_def)
  have win: "take (len c) (drop (off c) ((heap s ! b)[off c + nat i := x]))
             = (take (len c) (drop (off c) (heap s ! b)))[nat i := x]"
    using True b by (intro window_update) auto
  have c': "elems (heap ?s') c = spec_copy (CopyAssign i x) (elems (heap s) c)"
    using True b win assms by (simp add: elems_def)
  have g: "elems (heap ?s') (v ?s') = elems (heap s) (v s)"
    using b by (auto simp add: elems_def split: option.splits)
  have "indep c ?s'"
    using assms b by (auto simp add: indep_def wf_slice_def nth_list_update split: option.splits)
  with run c' g show ?thesis by blast
qed

lemma step_effect:
  assumes "indep c s"
  shows "\<exists>r s'. step slack z c a s = Inr (r, s') \<and> indep c s' \<and>
                elems (heap s') c = spec_copy a (elems (heap s) c) \<and>
                elems (heap s') (v s') = spec_guard a (elems (heap s) (v s))"
proof -
  from assms have u: "unlocked s" and w: "wf_slice (heap s) (v s)"
    by (simp_all add: indep_def)
  show ?thesis
  proof (cases a)
    case (GuardAppend els)
    from Append_effect [OF u w, of slack z els] obtain s' where
      "Append slack z els s = Inr (Ret (), s')"
      "elems (heap s') (v s') = elems (heap s) (v s) @ els"
      "guard_step s s'" by blast
    with GuardAppend guard_step_indep [OF assms, of s'] show ?thesis by simp
  next
    case (GuardUnshift el)
    from Unshift_effect [OF u w, of slack z el] obtain s' where
      "Unshift slack z el s = Inr (Ret (), s')"
      "elems (heap s') (v s') = el # elems (heap s) (v s)"
      "guard_step s s'" by blast
    with GuardUnshift guard_step_indep [OF assms, of s'] show ?thesis by simp
  next
    case (GuardRemove j)
    show ?thesis
    proof (cases "0 \<le> j \<and> j < int (len (v s))")
      case True
      then have "0 \<le> j" "j < int (len (v s))" by simp_all
      from Remove_effect [OF u w this, of z] obtain s' where
        "Remove z j s = Inr (Ret (elems (heap s) (v s) ! nat j), s')"
        "elems (heap s') (v s') =
           take (nat j) (elems (heap s) (v s)) @ drop (Suc (nat j)) (elems (heap s) (v s))"
        "guard_step s s'" by blast
      with GuardRemove True guard_step_indep [OF assms, of s'] w show ?thesis
        by (simp add: bnd_def ret_def length_elems)
    next
      case False
      then have "j < 0 \<or> int (len (v s)) \<le> j" by auto
      from Remove_panics [OF u this, of z] GuardRemove False assms w show ?thesis
        by (auto simp add: bnd_def length_elems)
    qed
  next
    case GuardClear
    from Clear_effect [OF u w, of z] obtain s' where
      "Clear z s = Inr (Ret (), s')" "elems (heap s') (v s') = []" "guard_step s s'" by blast
    with GuardClear guard_step_indep [OF assms, of s'] show ?thesis by simp
  next
    case (CopyAssign j x)
    with assign_effect [OF assms, of j x] show ?thesis by simp
  qed
qed

lemma run_effect:
  "indep c s \<Longrightarrow>
   \<exists>s'. run slack z c as s = Inr s' \<and> indep c s' \<and>
        elems (heap s') c = fold spec_copy as (elems (heap s) c) \<and>
        elems (heap s') (v s') = fold spec_guard as (elems (heap s) (v s))"
proof (induction as arbitrary: s)
  case Nil
  then show ?case by simp
next
  case (Cons a as)
  from step_effect [OF Cons.prems, of slack z a] obtain r s1 where
    s1: "step slack z c a s = Inr (r, s1)" "indep c s1"
        "elems (heap s1) c = spec_copy a (elems (heap s) c)"
        "elems (heap s1) (v s1) = spec_guard a (elems (heap s) (v s))" by blast
  from Cons.IH [OF s1(2)] s1 show ?case by simp
qed

text \<open>
  C9. On a slice guard whose lock is free and whose elements are \<open>xs\<close>, \<^verbatim>\<open>Clone()\<close>
  returns a slice \<open>c\<close> whose elements are \<open>xs\<close>. Whatever the caller does next, in any
  order and any number of times (\<^verbatim>\<open>Append\<close>, \<^verbatim>\<open>Unshift\<close>, \<^verbatim>\<open>Remove\<close> and
  \<^verbatim>\<open>Clear\<close> on the guard, assignments \<^verbatim>\<open>c[i] = x\<close> to the copy), the copy holds
  \<open>xs\<close> changed by the assignments alone, and the guard, as a further \<^verbatim>\<open>Clone()\<close>
  reports it, holds \<open>xs\<close> changed by the guard's mutators alone; the further
  \<^verbatim>\<open>Clone()\<close> does not disturb the first copy either.
\<close>

theorem Clone_independent:
  assumes "unlocked s" "wf_slice (heap s) (v s)"
  shows "\<exists>c s1. Clone z s = Inr (Ret c, s1) \<and>
           elems (heap s1) c = elems (heap s) (v s) \<and>
           elems (heap s1) (v s1) = elems (heap s) (v s) \<and>
           (\<forall>as. \<exists>s2. run slack z c as s1 = Inr s2 \<and>
                  elems (heap s2) c = fold spec_copy as (elems (heap s) (v s)) \<and>
                  elems (heap s2) (v s2) = fold spec_guard as (elems (heap s) (v s)) \<and>
                  (\<exists>c' s3. Clone z s2 = Inr (Ret c', s3) \<and>
                     elems (heap s3) c' = fold spec_guard as (elems (heap s) (v s)) \<and>
                     elems (heap s3) c = fold spec_copy as (elems (heap s) (v s))))"
proof -
  from Clone_effect [OF assms, of z] obtain c s1 where
    c: "Clone z s = Inr (Ret c, s1)" "indep c s1"
       "elems (heap s1) c = elems (heap s) (v s)"
       "elems (heap s1) (v s1) = elems (heap s) (v s)"
    by blast
  have "\<exists>s2. run slack z c as s1 = Inr s2 \<and>
                  elems (heap s2) c = fold spec_copy as (elems (heap s) (v s)) \<and>
                  elems (heap s2) (v s2) = fold spec_guard as (elems (heap s) (v s)) \<and>
                  (\<exists>c' s3. Clone z s2 = Inr (Ret c', s3) \<and>
                     elems (heap s3) c' = fold spec_guard as (elems (heap s) (v s)) \<and>
                     elems (heap s3) c = fold spec_copy as (elems (heap s) (v s)))" for as
  proof -
    from run_effect [OF c(2), of slack z as] c obtain s2 where
      s2: "run slack z c as s1 = Inr s2" "indep c s2"
          "elems (heap s2) c = fold spec_copy as (elems (heap s) (v s))"
          "elems (heap s2) (v s2) = fold spec_guard as (elems (heap s) (v s))" by auto
    then have u: "unlocked s2" and w: "wf_slice (heap s2) (v s2)" and wc: "wf_slice (heap s2) c"
      by (simp_all add: indep_def)
    have "length (elems (heap s2) (v s2)) = len (v s2)"
      using w by (rule length_elems)
    then have "length (fold spec_guard as (elems (heap s) (v s))) = len (v s2)"
      by (simp only: s2(4))
    with Clone_eq [OF u w, of z] s2 w wc show ?thesis
      by (simp add: elems_fresh elems_alloc)
  qed
  with c show ?thesis by blast
qed

text \<open>
  The test \<^verbatim>\<open>TestRWMtxSlice_Clone\<close>, and its converse: after \<^verbatim>\<open>clone[0] = 99\<close> and
  \<^verbatim>\<open>s.Remove(1)\<close>, the copy is \<open>[99, 2, 3]\<close> and a new \<^verbatim>\<open>Clone()\<close> is \<open>[1, 3]\<close>.
\<close>

theorem Clone_independent_witness:
  "unlocked slice_123 \<and> wf_slice (heap slice_123) (v slice_123) \<and>
   (\<exists>c s1. Clone 0 slice_123 = Inr (Ret c, s1) \<and> elems (heap s1) c = [1, 2, 3] \<and>
      (\<exists>s2. run exact_fit 0 c [CopyAssign 0 99, GuardRemove 1] s1 = Inr s2 \<and>
         (\<exists>c' s3. Clone 0 s2 = Inr (Ret c', s3) \<and>
            elems (heap s3) c' = [1, 3] \<and> elems (heap s3) c = [99, 2, 3])))"
proof -
  have u: "unlocked slice_123" and w: "wf_slice (heap slice_123) (v slice_123)"
    by (simp_all add: slice_123_def unlocked_def wf_slice_def)
  have e: "elems (heap slice_123) (v slice_123) = [1, 2, 3]"
    by (simp add: slice_123_def elems_def)
  from Clone_independent [OF u w, of 0 exact_fit] obtain c s1 where
    c: "Clone 0 slice_123 = Inr (Ret c, s1)"
       "elems (heap s1) c = elems (heap slice_123) (v slice_123)"
       "\<forall>as. \<exists>s2. run exact_fit 0 c as s1 = Inr s2 \<and>
           elems (heap s2) c = fold spec_copy as (elems (heap slice_123) (v slice_123)) \<and>
           elems (heap s2) (v s2) = fold spec_guard as (elems (heap slice_123) (v slice_123)) \<and>
           (\<exists>c' s3. Clone 0 s2 = Inr (Ret c', s3) \<and>
              elems (heap s3) c' = fold spec_guard as (elems (heap slice_123) (v slice_123)) \<and>
              elems (heap s3) c = fold spec_copy as (elems (heap slice_123) (v slice_123)))"
    by blast
  from c(3) obtain s2 c' s3 where
    r: "run exact_fit 0 c [CopyAssign 0 99, GuardRemove 1] s1 = Inr s2"
       "Clone 0 s2 = Inr (Ret c', s3)"
       "elems (heap s3) c' =
          fold spec_guard [CopyAssign 0 99, GuardRemove 1] (elems (heap slice_123) (v slice_123))"
       "elems (heap s3) c =
          fold spec_copy [CopyAssign 0 99, GuardRemove 1] (elems (heap slice_123) (v slice_123))"
    by blast
  from r(3,4) have "elems (heap s3) c' = [1, 3]" "elems (heap s3) c = [99, 2, 3]"
    by (simp_all add: e)
  with c(1,2) e r(1,2) u w show ?thesis by auto
qed

subsection \<open>What crosses the lock boundary\<close>

lemma Set_eq: "unlocked s \<Longrightarrow> Set x s = Inr (Ret (), s\<lparr>v := x\<rparr>)"
  by (simp add: Set_def go_defs unlocked_def)

lemma Len_eq:
  "unlocked s \<Longrightarrow> wf_slice (heap s) (v s) \<Longrightarrow>
   Len s = Inr (Ret (int (length (elems (heap s) (v s)))), s)"
  by (simp add: Len_def RWith_def RWithE_def go_defs unlocked_def length_elems)

lemma each_loop_collect:
  "\<forall>i\<in>set js. i < len x \<Longrightarrow>
   each_loop (\<lambda>e t. ret () (t\<lparr>vars := f e (vars t)\<rparr>)) x js s =
     Inr (Ret (), s\<lparr>vars := fold f (map (\<lambda>i. elems (heap s) x ! i) js) (vars s)\<rparr>)"
proof (induction js arbitrary: s)
  case Nil
  then show ?case by (simp add: ret_def)
next
  case (Cons j js)
  then have j: "j < len x" and rest: "\<forall>i\<in>set js. i < len x" by simp_all
  from Cons.IH [OF rest, of "s\<lparr>vars := f (elems (heap s) x ! j) (vars s)\<rparr>"] j show ?case
    by (simp add: bnd_def ret_def index_slice_def)
qed

lemma Each_eq:
  assumes "unlocked s" "wf_slice (heap s) (v s)"
  shows "Each (\<lambda>e t. ret () (t\<lparr>vars := f e (vars t)\<rparr>)) s =
           Inr (Ret (), s\<lparr>vars := fold f (elems (heap s) (v s)) (vars s)\<rparr>)"
proof -
  let ?r = "s\<lparr>RWMutex := (RWMutex s)\<lparr>readers := Suc 0\<rparr>\<rparr>"
  have all: "\<forall>i\<in>set [0..<len (v s)]. i < len (v s)" by simp
  have "map (\<lambda>i. elems (heap s) (v s) ! i) [0..<len (v s)] = elems (heap s) (v s)"
    using length_elems [OF assms(2)] map_nth [of "elems (heap s) (v s)"] by simp
  with each_loop_collect [OF all, of f ?r]
  have "each_loop (\<lambda>e t. ret () (t\<lparr>vars := f e (vars t)\<rparr>)) (v s) [0..<len (v s)] ?r =
          Inr (Ret (), ?r\<lparr>vars := fold f (elems (heap s) (v s)) (vars s)\<rparr>)"
    by simp
  with assms(1) show ?thesis
    by (simp add: Each_def RWith_def RWithE_def go_defs unlocked_def)
qed

lemma Clone_guard_step:
  assumes "unlocked s" "wf_slice (heap s) (v s)"
  shows "guard_step s (s\<lparr>heap := heap s @ [xs]\<rparr>)"
  using assms by (auto simp add: guard_step_def wf_slice_def nth_append split: option.splits)

lemma slice_calls_keep_apart:
  assumes c: "indep c s"
  shows "(\<exists>s'. Append slack z els s = Inr (Ret (), s') \<and>
               indep c s' \<and> elems (heap s') c = elems (heap s) c)"
    and "(\<exists>s'. Unshift slack z el s = Inr (Ret (), s') \<and>
               indep c s' \<and> elems (heap s') c = elems (heap s) c)"
    and "(\<exists>s'. Clear z s = Inr (Ret (), s') \<and>
               indep c s' \<and> elems (heap s') c = elems (heap s) c)"
    and "(\<exists>q s'. Remove z i s = Inr (q, s') \<and>
               indep c s' \<and> elems (heap s') c = elems (heap s) c \<and>
               (q = Panic IndexOutOfRange \<or> q = Ret (elems (heap s) (v s) ! nat i)))"
    and "(\<exists>d s'. Clone z s = Inr (Ret d, s') \<and>
               indep c s' \<and> elems (heap s') c = elems (heap s) c \<and>
               indep d s' \<and> base d \<noteq> base c \<and> v s' = v s \<and>
               elems (heap s') d = elems (heap s) (v s))"
proof -
  from c have u: "unlocked s" and w: "wf_slice (heap s) (v s)"
    by (simp_all add: indep_def)
  from Append_effect [OF u w, of slack z els] guard_step_indep [OF c]
  show "\<exists>s'. Append slack z els s = Inr (Ret (), s') \<and>
               indep c s' \<and> elems (heap s') c = elems (heap s) c"
    by blast
  from Unshift_effect [OF u w, of slack z el] guard_step_indep [OF c]
  show "\<exists>s'. Unshift slack z el s = Inr (Ret (), s') \<and>
               indep c s' \<and> elems (heap s') c = elems (heap s) c"
    by blast
  from Clear_effect [OF u w, of z] guard_step_indep [OF c]
  show "\<exists>s'. Clear z s = Inr (Ret (), s') \<and>
               indep c s' \<and> elems (heap s') c = elems (heap s) c"
    by blast
  show "\<exists>q s'. Remove z i s = Inr (q, s') \<and>
               indep c s' \<and> elems (heap s') c = elems (heap s) c \<and>
               (q = Panic IndexOutOfRange \<or> q = Ret (elems (heap s) (v s) ! nat i))"
  proof (cases "0 \<le> i \<and> i < int (len (v s))")
    case True
    then have "0 \<le> i" "i < int (len (v s))" by simp_all
    from Remove_effect [OF u w this, of z] guard_step_indep [OF c] show ?thesis by blast
  next
    case False
    then have "i < 0 \<or> int (len (v s)) \<le> i" by auto
    from Remove_panics [OF u this, of z] c show ?thesis by simp
  qed
  let ?d = "\<lparr>base = Some (length (heap s)), off = 0, len = len (v s), cap = len (v s)\<rparr>"
  let ?s' = "s\<lparr>heap := heap s @ [elems (heap s) (v s)]\<rparr>"
  have run: "Clone z s = Inr (Ret ?d, ?s')" using u w by (rule Clone_eq)
  from guard_step_indep [OF c Clone_guard_step [OF u w]]
  have keep: "indep c ?s'" "elems (heap ?s') c = elems (heap s) c" by simp_all
  from Clone_effect [OF u w, of z] run
  have fresh: "indep ?d ?s'" "elems (heap ?s') ?d = elems (heap s) (v s)" by auto
  from c have "base ?d \<noteq> base c"
    by (auto simp add: indep_def wf_slice_def)
  with run keep fresh
  show "\<exists>d s'. Clone z s = Inr (Ret d, s') \<and>
               indep c s' \<and> elems (heap s') c = elems (heap s) c \<and>
               indep d s' \<and> base d \<noteq> base c \<and> v s' = v s \<and>
               elems (heap s') d = elems (heap s) (v s)"
    by (intro exI [of _ ?d] exI [of _ ?s']) simp
qed

lemma map_calls_keep_apart:
  assumes u: "unlocked m" and w: "wf_map m" and r: "apart r m"
  shows "\<exists>q m'. Store ks k y m = Inr (q, m') \<and>
               v m' = v m \<and> apart r m' \<and> heap m' ! r = heap m ! r"
    and "\<exists>q m'. Delete ks k m = Inr (q, m') \<and>
               v m' = v m \<and> apart r m' \<and> heap m' ! r = heap m ! r"
    and "\<exists>q m'. LoadAndDelete ks z k m = Inr (q, m') \<and>
               v m' = v m \<and> apart r m' \<and> heap m' ! r = heap m ! r"
    and "\<exists>q. Load ks z k m = Inr (q, m)"
    and "Len_map m = Inr (Ret (map_len (heap m) (v m)), m)"
    and "\<exists>m'. Clear_map m = Inr (Ret (), m') \<and>
               v m' = v m \<and> apart r m' \<and> heap m' ! r = heap m ! r"
  using u w r
  by (auto simp add: Store_eq Delete_eq LoadAndDelete_eq Load_eq Len_map_eq Clear_map_eq
      apart_def wf_map_def map_erase_def split: option.splits)

lemma Get_slice_is_handle:
  assumes u: "unlocked t" and w: "wf_slice (heap t) (v t)" and i: "0 \<le> i" "i < int (len (v t))"
  shows "\<exists>t'. bnd Get (\<lambda>h. assign_slice h i x) t = Inr (Ret (), t') \<and>
            v t' = v t \<and> unlocked t' \<and>
            elems (heap t') (v t') = (elems (heap t) (v t))[nat i := x]"
proof -
  from w i obtain a where a: "base (v t) = Some a" "off (v t) + len (v t) \<le> length (heap t ! a)"
    "a < length (heap t)"
    by (cases "base (v t)") (auto simp add: wf_slice_def)
  let ?t' = "t\<lparr>heap := (heap t)[a := (heap t ! a)[off (v t) + nat i := x]]\<rparr>"
  have "bnd Get (\<lambda>h. assign_slice h i x) t = Inr (Ret (), ?t')"
    using u i a by (simp add: bnd_def Get_eq assign_slice_def ret_def)
  moreover have "take (len (v t)) (drop (off (v t)) ((heap t ! a)[off (v t) + nat i := x]))
                 = (take (len (v t)) (drop (off (v t)) (heap t ! a)))[nat i := x]"
    using a i by (intro window_update) auto
  then have "elems (heap ?t') (v ?t') = (elems (heap t) (v t))[nat i := x]"
    using a by (simp add: elems_def)
  moreover have "unlocked ?t'" using u by simp
  ultimately show ?thesis by auto
qed

lemma Set_slice_keeps_handle:
  assumes u: "unlocked t" and w: "wf_slice (heap t) c" and i: "0 \<le> i" "i < int (len c)"
  shows "\<exists>t'. bnd (Set c) (\<lambda>_. assign_slice c i x) t = Inr (Ret (), t') \<and>
            v t' = c \<and> unlocked t' \<and>
            elems (heap t') (v t') = (elems (heap t) c)[nat i := x]"
proof -
  from w i obtain a where a: "base c = Some a" "off c + len c \<le> length (heap t ! a)"
    "a < length (heap t)"
    by (cases "base c") (auto simp add: wf_slice_def)
  let ?t' = "t\<lparr>v := c, heap := (heap t)[a := (heap t ! a)[off c + nat i := x]]\<rparr>"
  have "bnd (Set c) (\<lambda>_. assign_slice c i x) t = Inr (Ret (), ?t')"
    using u i a by (simp add: bnd_def Set_eq assign_slice_def ret_def)
  moreover have "take (len c) (drop (off c) ((heap t ! a)[off c + nat i := x]))
                 = (take (len c) (drop (off c) (heap t ! a)))[nat i := x]"
    using a i by (intro window_update) auto
  then have "elems (heap ?t') (v ?t') = (elems (heap t) c)[nat i := x]"
    using a by (simp add: elems_def)
  moreover have "unlocked ?t'" using u by simp
  ultimately show ?thesis by auto
qed

lemma Get_map_is_handle:
  assumes u: "unlocked m" and w: "wf_map m" and n: "v m \<noteq> None"
    and h: "hashable ks k" and e: "self_equal ks k"
  shows "\<exists>m'. bnd Get (\<lambda>h. map_assign ks h k y) m = Inr (Ret (), m') \<and>
            v m' = v m \<and> unlocked m' \<and>
            entries ks m' = (entries ks m)(k \<mapsto> y) \<and>
            Load ks z k m' = Inr (Ret (y, True), m')"
proof -
  from n obtain a where a: "v m = Some a" by auto
  let ?m' = "m\<lparr>heap := (heap m)[a := put_entry ks k y (heap m ! a)]\<rparr>"
  have run: "bnd Get (\<lambda>h. map_assign ks h k y) m = Inr (Ret (), ?m')"
    using u a h by (simp add: bnd_def Get_eq map_assign_def ret_def)
  have en: "entries ks ?m' = (entries ks m)(k \<mapsto> y)"
    using entries_heap [OF w a, of ks] entries_at [OF a, of ks] e by (simp add: find_put)
  have u': "unlocked ?m'" using u by simp
  have "map_lookup ks z (heap ?m') (v ?m') k = (y, True)"
    unfolding lookup_entries en by simp
  with Load_eq [OF u', of ks z k] h have "Load ks z k ?m' = Inr (Ret (y, True), ?m')"
    by simp
  with run en u show ?thesis by auto
qed

text \<open>
  C2, as the code has it. A handle on the guarded value crosses the lock boundary at
  \<^verbatim>\<open>Get\<close> and \<^verbatim>\<open>Set\<close>, and at no other public operation outside the scoped
  callbacks.

  On a slice guard, a slice \<open>c\<close> the caller holds in an array of its own stays in an
  array of its own, with its elements as they were, through \<^verbatim>\<open>Append\<close>, \<^verbatim>\<open>Unshift\<close>,
  \<^verbatim>\<open>Clear\<close>, \<^verbatim>\<open>Remove\<close> and \<^verbatim>\<open>Clone\<close>. What these return is no handle:
  \<^verbatim>\<open>Remove\<close> returns the element or panics, \<^verbatim>\<open>Len\<close> returns the number of elements,
  \<^verbatim>\<open>Each\<close> hands the callback the elements one by one, in order, and the slice
  \<^verbatim>\<open>Clone\<close> returns lies in a new array, apart from the guard's and from the
  caller's, holding the guarded elements.

  On a map guard, \<^verbatim>\<open>Store\<close>, \<^verbatim>\<open>Delete\<close>, \<^verbatim>\<open>LoadAndDelete\<close>, \<^verbatim>\<open>Load\<close>, \<^verbatim>\<open>Len\<close>
  and \<^verbatim>\<open>Clear\<close> leave the guard's reference as it was and a table \<open>r\<close> the caller
  holds apart from the guard untouched; they return a value of \<open>V\<close> with a flag, a
  count, or nothing.

  \<^verbatim>\<open>Get()\<close>, called while the lock is free, returns the value of the guarded variable
  \<open>v\<close> and changes nothing, and \<^verbatim>\<open>Set(x)\<close> makes \<open>x\<close> the guarded value. When that
  value is itself a reference, it is the guard's own slice or map that is passed and
  not a copy of its elements: on a slice guard an assignment \<^verbatim>\<open>h[j] = x\<close> through the
  slice \<^verbatim>\<open>Get\<close> returned, or through the slice the caller gave to \<^verbatim>\<open>Set\<close>, made
  outside the lock, changes the element of the guarded sequence at that index, and on a
  map guard whose map is not \<^verbatim>\<open>nil\<close> an assignment \<^verbatim>\<open>h[k] = y\<close> through the map
  \<^verbatim>\<open>Get\<close> returned, under a key that can be hashed and equals itself, changes the
  guarded map, as a following \<^verbatim>\<open>Load(k)\<close> shows.
\<close>

theorem handles_cross_only_through_Get_and_Set:
  "(indep c s \<longrightarrow>
      (\<exists>s'. Append slack z els s = Inr (Ret (), s') \<and>
            indep c s' \<and> elems (heap s') c = elems (heap s) c) \<and>
      (\<exists>s'. Unshift slack z el s = Inr (Ret (), s') \<and>
            indep c s' \<and> elems (heap s') c = elems (heap s) c) \<and>
      (\<exists>s'. Clear z s = Inr (Ret (), s') \<and>
            indep c s' \<and> elems (heap s') c = elems (heap s) c) \<and>
      (\<exists>q s'. Remove z i s = Inr (q, s') \<and>
            indep c s' \<and> elems (heap s') c = elems (heap s) c \<and>
            (q = Panic IndexOutOfRange \<or> q = Ret (elems (heap s) (v s) ! nat i))) \<and>
      (\<exists>d s'. Clone z s = Inr (Ret d, s') \<and>
            indep c s' \<and> elems (heap s') c = elems (heap s) c \<and>
            indep d s' \<and> base d \<noteq> base c \<and> v s' = v s \<and>
            elems (heap s') d = elems (heap s) (v s))) \<and>
   (unlocked s \<and> wf_slice (heap s) (v s) \<longrightarrow>
      (\<exists>d s'. Clone z s = Inr (Ret d, s') \<and> indep d s' \<and> v s' = v s \<and>
            elems (heap s') d = elems (heap s) (v s)) \<and>
      Len s = Inr (Ret (int (length (elems (heap s) (v s)))), s) \<and>
      Each (\<lambda>e t. ret () (t\<lparr>vars := f e (vars t)\<rparr>)) s =
        Inr (Ret (), s\<lparr>vars := fold f (elems (heap s) (v s)) (vars s)\<rparr>)) \<and>
   (unlocked m \<and> wf_map m \<and> apart r m \<longrightarrow>
      (\<exists>q m'. Store ks k y m = Inr (q, m') \<and>
            v m' = v m \<and> apart r m' \<and> heap m' ! r = heap m ! r) \<and>
      (\<exists>q m'. Delete ks k m = Inr (q, m') \<and>
            v m' = v m \<and> apart r m' \<and> heap m' ! r = heap m ! r) \<and>
      (\<exists>q m'. LoadAndDelete ks zv k m = Inr (q, m') \<and>
            v m' = v m \<and> apart r m' \<and> heap m' ! r = heap m ! r) \<and>
      (\<exists>q. Load ks zv k m = Inr (q, m)) \<and>
      Len_map m = Inr (Ret (map_len (heap m) (v m)), m) \<and>
      (\<exists>m'. Clear_map m = Inr (Ret (), m') \<and>
            v m' = v m \<and> apart r m' \<and> heap m' ! r = heap m ! r)) \<and>
   (unlocked g \<longrightarrow> Get g = Inr (Ret (v g), g) \<and> Set x g = Inr (Ret (), g\<lparr>v := x\<rparr>)) \<and>
   (unlocked s \<and> wf_slice (heap s) (v s) \<and> 0 \<le> j \<and> j < int (len (v s)) \<longrightarrow>
      (\<exists>s'. bnd Get (\<lambda>h. assign_slice h j xe) s = Inr (Ret (), s') \<and>
            v s' = v s \<and> unlocked s' \<and>
            elems (heap s') (v s') = (elems (heap s) (v s))[nat j := xe])) \<and>
   (unlocked s \<and> wf_slice (heap s) c \<and> 0 \<le> j \<and> j < int (len c) \<longrightarrow>
      (\<exists>s'. bnd (Set c) (\<lambda>_. assign_slice c j xe) s = Inr (Ret (), s') \<and>
            v s' = c \<and> unlocked s' \<and>
            elems (heap s') (v s') = (elems (heap s) c)[nat j := xe])) \<and>
   (unlocked m \<and> wf_map m \<and> v m \<noteq> None \<and> hashable ks k \<and> self_equal ks k \<longrightarrow>
      (\<exists>m'. bnd Get (\<lambda>h. map_assign ks h k y) m = Inr (Ret (), m') \<and>
            v m' = v m \<and> unlocked m' \<and>
            entries ks m' = (entries ks m)(k \<mapsto> y) \<and>
            Load ks zv k m' = Inr (Ret (y, True), m')))"
proof (intro conjI impI)
  assume c: "indep c s"
  from slice_calls_keep_apart(1) [OF c]
  show "\<exists>s'. Append slack z els s = Inr (Ret (), s') \<and>
            indep c s' \<and> elems (heap s') c = elems (heap s) c" .
  from slice_calls_keep_apart(2) [OF c]
  show "\<exists>s'. Unshift slack z el s = Inr (Ret (), s') \<and>
            indep c s' \<and> elems (heap s') c = elems (heap s) c" .
  from slice_calls_keep_apart(3) [OF c]
  show "\<exists>s'. Clear z s = Inr (Ret (), s') \<and>
            indep c s' \<and> elems (heap s') c = elems (heap s) c" .
  from slice_calls_keep_apart(4) [OF c]
  show "\<exists>q s'. Remove z i s = Inr (q, s') \<and>
            indep c s' \<and> elems (heap s') c = elems (heap s) c \<and>
            (q = Panic IndexOutOfRange \<or> q = Ret (elems (heap s) (v s) ! nat i))" .
  from slice_calls_keep_apart(5) [OF c]
  show "\<exists>d s'. Clone z s = Inr (Ret d, s') \<and>
            indep c s' \<and> elems (heap s') c = elems (heap s) c \<and>
            indep d s' \<and> base d \<noteq> base c \<and> v s' = v s \<and>
            elems (heap s') d = elems (heap s) (v s)" .
next
  assume "unlocked s \<and> wf_slice (heap s) (v s)"
  then have u: "unlocked s" and w: "wf_slice (heap s) (v s)" by simp_all
  from Clone_effect [OF u w, of z]
  show "\<exists>d s'. Clone z s = Inr (Ret d, s') \<and> indep d s' \<and> v s' = v s \<and>
            elems (heap s') d = elems (heap s) (v s)" by blast
  from u w show "Len s = Inr (Ret (int (length (elems (heap s) (v s)))), s)" by (rule Len_eq)
  from u w show "Each (\<lambda>e t. ret () (t\<lparr>vars := f e (vars t)\<rparr>)) s =
        Inr (Ret (), s\<lparr>vars := fold f (elems (heap s) (v s)) (vars s)\<rparr>)" by (rule Each_eq)
next
  assume "unlocked m \<and> wf_map m \<and> apart r m"
  then have u: "unlocked m" and w: "wf_map m" and r: "apart r m" by simp_all
  from map_calls_keep_apart(1) [OF u w r]
  show "\<exists>q m'. Store ks k y m = Inr (q, m') \<and>
            v m' = v m \<and> apart r m' \<and> heap m' ! r = heap m ! r" .
  from map_calls_keep_apart(2) [OF u w r]
  show "\<exists>q m'. Delete ks k m = Inr (q, m') \<and>
            v m' = v m \<and> apart r m' \<and> heap m' ! r = heap m ! r" .
  from map_calls_keep_apart(3) [OF u w r]
  show "\<exists>q m'. LoadAndDelete ks zv k m = Inr (q, m') \<and>
            v m' = v m \<and> apart r m' \<and> heap m' ! r = heap m ! r" .
  from map_calls_keep_apart(4) [OF u w r]
  show "\<exists>q. Load ks zv k m = Inr (q, m)" .
  from map_calls_keep_apart(5) [OF u w r]
  show "Len_map m = Inr (Ret (map_len (heap m) (v m)), m)" .
  from map_calls_keep_apart(6) [OF u w r]
  show "\<exists>m'. Clear_map m = Inr (Ret (), m') \<and>
            v m' = v m \<and> apart r m' \<and> heap m' ! r = heap m ! r" .
next
  assume u: "unlocked g"
  then show "Get g = Inr (Ret (v g), g)" by (rule Get_eq)
  from u show "Set x g = Inr (Ret (), g\<lparr>v := x\<rparr>)" by (rule Set_eq)
next
  assume "unlocked s \<and> wf_slice (heap s) (v s) \<and> 0 \<le> j \<and> j < int (len (v s))"
  then have "unlocked s" "wf_slice (heap s) (v s)" "0 \<le> j" "j < int (len (v s))" by simp_all
  then show "\<exists>s'. bnd Get (\<lambda>h. assign_slice h j xe) s = Inr (Ret (), s') \<and>
            v s' = v s \<and> unlocked s' \<and>
            elems (heap s') (v s') = (elems (heap s) (v s))[nat j := xe]"
    by (rule Get_slice_is_handle)
next
  assume "unlocked s \<and> wf_slice (heap s) c \<and> 0 \<le> j \<and> j < int (len c)"
  then have "unlocked s" "wf_slice (heap s) c" "0 \<le> j" "j < int (len c)" by simp_all
  then show "\<exists>s'. bnd (Set c) (\<lambda>_. assign_slice c j xe) s = Inr (Ret (), s') \<and>
            v s' = c \<and> unlocked s' \<and>
            elems (heap s') (v s') = (elems (heap s) c)[nat j := xe]"
    by (rule Set_slice_keeps_handle)
next
  assume "unlocked m \<and> wf_map m \<and> v m \<noteq> None \<and> hashable ks k \<and> self_equal ks k"
  then have "unlocked m" "wf_map m" "v m \<noteq> None" "hashable ks k" "self_equal ks k" by simp_all
  then show "\<exists>m'. bnd Get (\<lambda>h. map_assign ks h k y) m = Inr (Ret (), m') \<and>
            v m' = v m \<and> unlocked m' \<and>
            entries ks m' = (entries ks m)(k \<mapsto> y) \<and>
            Load ks zv k m' = Inr (Ret (y, True), m')"
    by (rule Get_map_is_handle)
qed

text \<open>
  On the guard holding \<open>[1, 2, 3]\<close>, with the caller's own \<open>[7, 8]\<close> beside it:
  \<^verbatim>\<open>Append(4)\<close> leaves \<open>[7, 8]\<close> alone, \<^verbatim>\<open>Clone()\<close> returns \<open>[1, 2, 3]\<close> in a new
  array, \<^verbatim>\<open>Each\<close> shows the callback \<open>1\<close>, \<open>2\<close>, \<open>3\<close>; \<^verbatim>\<open>h := s.Get(); h[0] = 99\<close>
  leaves the guard with \<open>[99, 2, 3]\<close>, and \<^verbatim>\<open>s.Set(c); c[0] = 99\<close> leaves it with
  \<open>[99, 8]\<close>. On the map guard, \<^verbatim>\<open>Store("c", 9)\<close> leaves the caller's map alone, and
  \<^verbatim>\<open>h := m.Get(); h["b"] = 7\<close> leaves the guard with \<open>7\<close> under \<open>"b"\<close>.
\<close>

theorem handles_cross_only_through_Get_and_Set_witness:
  "indep caller_78 slice_123_and_78 \<and>
   (\<exists>s'. Append exact_fit 0 [4] slice_123_and_78 = Inr (Ret (), s') \<and>
         indep caller_78 s' \<and> elems (heap s') caller_78 = [7, 8]) \<and>
   (\<exists>d s'. Clone 0 slice_123_and_78 = Inr (Ret d, s') \<and>
         indep caller_78 s' \<and> elems (heap s') caller_78 = [7, 8] \<and>
         indep d s' \<and> base d \<noteq> base caller_78 \<and> elems (heap s') d = [1, 2, 3]) \<and>
   unlocked slice_123_and_78 \<and> wf_slice (heap slice_123_and_78) (v slice_123_and_78) \<and>
   Len slice_123_and_78 = Inr (Ret 3, slice_123_and_78) \<and>
   Each collect slice_123_and_78 = Inr (Ret (), slice_123_and_78\<lparr>vars := [1, 2, 3]\<rparr>) \<and>
   unlocked map_b2_and_c3 \<and> wf_map map_b2_and_c3 \<and> apart 1 map_b2_and_c3 \<and>
   (\<exists>q m'. Store string_keys ''c'' 9 map_b2_and_c3 = Inr (q, m') \<and>
         v m' = v map_b2_and_c3 \<and> apart 1 m' \<and> heap m' ! 1 = [(''c'', 3)]) \<and>
   unlocked guard_1 \<and> Get guard_1 = Inr (Ret 1, guard_1) \<and>
   Set 5 guard_1 = Inr (Ret (), guard_1\<lparr>v := 5\<rparr>) \<and>
   0 < int (len (v slice_123_and_78)) \<and>
   (\<exists>s'. bnd Get (\<lambda>h. assign_slice h 0 99) slice_123_and_78 = Inr (Ret (), s') \<and>
         elems (heap s') (v s') = [99, 2, 3]) \<and>
   wf_slice (heap slice_123_and_78) caller_78 \<and> 0 < int (len caller_78) \<and>
   (\<exists>s'. bnd (Set caller_78) (\<lambda>_. assign_slice caller_78 0 99) slice_123_and_78
           = Inr (Ret (), s') \<and>
         v s' = caller_78 \<and> elems (heap s') (v s') = [99, 8]) \<and>
   v map_b2_and_c3 \<noteq> None \<and> hashable string_keys ''c'' \<and> self_equal string_keys ''c'' \<and>
   (\<exists>m'. bnd Get (\<lambda>h. map_assign string_keys h ''c'' 7) map_b2_and_c3 = Inr (Ret (), m') \<and>
         Load string_keys 0 ''c'' m' = Inr (Ret (7, True), m'))"
proof -
  let ?s = slice_123_and_78 and ?m = map_b2_and_c3
  have u: "unlocked ?s" and w: "wf_slice (heap ?s) (v ?s)" and wc: "wf_slice (heap ?s) caller_78"
    and c: "indep caller_78 ?s" and l: "0 < int (len (v ?s))" "0 < int (len caller_78)"
    by (simp_all add: slice_123_and_78_def caller_78_def unlocked_def wf_slice_def indep_def)
  have e: "elems (heap ?s) (v ?s) = [1, 2, 3]" and ec: "elems (heap ?s) caller_78 = [7, 8]"
    by (simp_all add: slice_123_and_78_def caller_78_def elems_def)
  have um: "unlocked ?m" and wm: "wf_map ?m" and am: "apart 1 ?m" and nm: "v ?m \<noteq> None"
    and hm: "heap ?m ! 1 = [(''c'', 3)]"
    by (simp_all add: map_b2_and_c3_def unlocked_def wf_map_def apart_def)
  have k: "hashable string_keys ''c''" "self_equal string_keys ''c''"
    by (simp_all add: string_keys_def)
  have ug: "unlocked guard_1" and vg: "v guard_1 = 1"
    by (simp_all add: guard_1_def NewRWMtx_def unlocked_def)
  have cl: "collect = (\<lambda>e t. ret () (t\<lparr>vars := (\<lambda>e l. l @ [e]) e (vars t)\<rparr>))"
    by (intro ext) (simp add: collect_def)
  have vs: "vars ?s = []" by (simp add: slice_123_and_78_def)
  note T = handles_cross_only_through_Get_and_Set [where s = ?s and c = caller_78
      and slack = exact_fit and z = 0 and els = "[4]" and el = 0 and i = 1
      and f = "\<lambda>e l. l @ [e]" and m = ?m and r = 1
      and ks = string_keys and k = "''c''" and y = 7 and zv = 0 and g = guard_1 and x = 5
      and j = 0 and xe = 99]
  note held = T [THEN conjunct1, THEN mp, OF c]
  note rest = T [THEN conjunct2]
  note results = rest [THEN conjunct1, THEN mp, OF conjI [OF u w]]
  note rest = rest [THEN conjunct2, THEN conjunct2]
  note plain = rest [THEN conjunct1, THEN mp, OF ug]
  note rest = rest [THEN conjunct2]
  have "unlocked ?s \<and> wf_slice (heap ?s) (v ?s) \<and> 0 \<le> (0::int) \<and> 0 < int (len (v ?s))"
    using u w l by simp
  note got = rest [THEN conjunct1, THEN mp, OF this]
  have "unlocked ?s \<and> wf_slice (heap ?s) caller_78 \<and> 0 \<le> (0::int) \<and> 0 < int (len caller_78)"
    using u wc l by simp
  note given = rest [THEN conjunct2, THEN conjunct1, THEN mp, OF this]
  have "unlocked ?m \<and> wf_map ?m \<and> v ?m \<noteq> None \<and> hashable string_keys ''c'' \<and>
        self_equal string_keys ''c''"
    using um wm nm k by simp
  note got_map = rest [THEN conjunct2, THEN conjunct2, THEN mp, OF this]
  from held [THEN conjunct1]
  have a1: "\<exists>s'. Append exact_fit 0 [4] ?s = Inr (Ret (), s') \<and>
         indep caller_78 s' \<and> elems (heap s') caller_78 = [7, 8]"
    by (simp only: ec)
  from held [THEN conjunct2, THEN conjunct2, THEN conjunct2, THEN conjunct2]
  obtain d s' where "Clone 0 ?s = Inr (Ret d, s')" "indep caller_78 s'"
    "elems (heap s') caller_78 = elems (heap ?s) caller_78" "indep d s'"
    "base d \<noteq> base caller_78" "elems (heap s') d = elems (heap ?s) (v ?s)"
    by blast
  then have a2: "\<exists>d s'. Clone 0 ?s = Inr (Ret d, s') \<and>
         indep caller_78 s' \<and> elems (heap s') caller_78 = [7, 8] \<and>
         indep d s' \<and> base d \<noteq> base caller_78 \<and> elems (heap s') d = [1, 2, 3]"
    unfolding e ec by blast
  from results [THEN conjunct2, THEN conjunct1] have a3: "Len ?s = Inr (Ret 3, ?s)"
    by (simp add: e)
  from results [THEN conjunct2, THEN conjunct2]
  have a4: "Each collect ?s = Inr (Ret (), ?s\<lparr>vars := [1, 2, 3]\<rparr>)"
    by (simp add: cl e vs)
  from handles_cross_only_through_Get_and_Set [where m = ?m and r = 1 and ks = string_keys
      and k = "''c''" and y = 9, THEN conjunct2, THEN conjunct2, THEN conjunct1, THEN mp,
      OF conjI [OF um conjI [OF wm am]], THEN conjunct1]
  have a5: "\<exists>q m'. Store string_keys ''c'' 9 ?m = Inr (q, m') \<and>
         v m' = v ?m \<and> apart 1 m' \<and> heap m' ! 1 = [(''c'', 3)]"
    by (simp only: hm)
  from plain have a6: "Get guard_1 = Inr (Ret 1, guard_1)"
    and a7: "Set 5 guard_1 = Inr (Ret (), guard_1\<lparr>v := 5\<rparr>)"
    by (simp_all add: vg)
  from got obtain s1 where "bnd Get (\<lambda>h. assign_slice h 0 99) ?s = Inr (Ret (), s1)"
    "elems (heap s1) (v s1) = (elems (heap ?s) (v ?s))[nat 0 := 99]"
    by blast
  then have a8: "\<exists>s'. bnd Get (\<lambda>h. assign_slice h 0 99) ?s = Inr (Ret (), s') \<and>
         elems (heap s') (v s') = [99, 2, 3]"
    by (simp add: e)
  from given obtain s2 where
    "bnd (Set caller_78) (\<lambda>_. assign_slice caller_78 0 99) ?s = Inr (Ret (), s2)"
    "v s2 = caller_78" "elems (heap s2) (v s2) = (elems (heap ?s) caller_78)[nat 0 := 99]"
    by blast
  then have a9: "\<exists>s'. bnd (Set caller_78) (\<lambda>_. assign_slice caller_78 0 99) ?s
                       = Inr (Ret (), s') \<and>
         v s' = caller_78 \<and> elems (heap s') (v s') = [99, 8]"
    by (simp add: ec)
  from got_map
  have a10: "\<exists>m'. bnd Get (\<lambda>h. map_assign string_keys h ''c'' 7) ?m = Inr (Ret (), m') \<and>
         Load string_keys 0 ''c'' m' = Inr (Ret (7, True), m')"
    by blast
  from c a1 a2 u w a3 a4 um wm am a5 ug a6 a7 l(1) a8 wc l(2) a9 nm k a10 show ?thesis
    by (intro conjI)
qed

text \<open>
  C2 as the spec words it, that \<^verbatim>\<open>Get()\<close> hands out a copy and never a handle on the
  guarded value, fails on a slice guard holding \<open>[1, 2, 3]\<close>: after
  \<^verbatim>\<open>h := s.Get(); h[0] = 99\<close>, with no lock held for the assignment, \<^verbatim>\<open>s.Clone()\<close>
  returns \<open>[99, 2, 3]\<close>.
\<close>

theorem Get_on_slice_guard_counterexample:
  "elems (heap slice_123) (v slice_123) = [1, 2, 3] \<and>
   returned (get_assign_clone slice_123) = Some [99, 2, 3]"
  by (simp add: get_assign_clone_def slice_123_def returned_def Get_def Clone_def RWith_def
      RWithE_def go_defs assign_slice_def make_slice_def copy_slice_def elems_def overwrite_def)

subsection \<open>Further properties the spec lists\<close>

text \<open>Read after write: after \<^verbatim>\<open>Set(x)\<close> has returned, \<^verbatim>\<open>Get()\<close> returns \<open>x\<close>.\<close>

lemma Set_then_Get:
  assumes "unlocked s"
  shows "\<exists>s'. Set x s = Inr (Ret (), s') \<and> unlocked s' \<and> Get s' = Inr (Ret x, s')"
proof -
  have "Set x s = Inr (Ret (), s\<lparr>v := x\<rparr>)"
    using assms by (simp add: Set_def go_defs unlocked_def)
  moreover have "Get (s\<lparr>v := x\<rparr>) = Inr (Ret x, s\<lparr>v := x\<rparr>)"
    using assms by (simp add: Get_eq)
  ultimately show ?thesis using assms by simp
qed

text \<open>\<^verbatim>\<open>Len()\<close> of a slice guard is the number of its elements, and \<^verbatim>\<open>Clear()\<close> leaves none.\<close>

lemma Len_counts:
  assumes "unlocked s" "wf_slice (heap s) (v s)"
  shows "Len s = Inr (Ret (int (length (elems (heap s) (v s)))), s)"
  using assms by (simp add: Len_def RWith_def RWithE_def go_defs unlocked_def length_elems)

lemma Clear_then_Len:
  assumes "unlocked s" "wf_slice (heap s) (v s)"
  shows "\<exists>s'. Clear z s = Inr (Ret (), s') \<and> Len s' = Inr (Ret 0, s')"
proof -
  from Clear_effect [OF assms, of z] obtain s' where
    s': "Clear z s = Inr (Ret (), s')" "elems (heap s') (v s') = []" "guard_step s s'" by blast
  from guard_step_keeps [OF s'(3)] have "unlocked s'" "wf_slice (heap s') (v s')" by simp_all
  from Len_counts [OF this] s' show ?thesis by simp
qed

text \<open>
  A callback that calls back into its own guard never returns: \<^verbatim>\<open>With\<close> inside
  \<^verbatim>\<open>With\<close> or inside \<^verbatim>\<open>RWith\<close> waits for a lock its own goroutine holds.
\<close>

lemma reentrant_With_blocks:
  assumes "unlocked s"
  shows "With (\<lambda>p. With clb) s = Inl Deadlock"
    and "RWith (\<lambda>x. With clb) s = Inl Deadlock"
  using assms by (simp_all add: With_def WithE_def RWith_def RWithE_def go_defs unlocked_def)

end
